theory Spec2Isabelle
  imports Main "HOL-Library.Word" "HOL-Library.AList" "HOL-Library.Sublist" "HOL-Library.Multiset"
begin

unbundle bit_operations_syntax

section \<open>JavaScript strings\<close>

text \<open>
  A JavaScript string is a sequence of UTF-16 code units; \<open>str.length\<close> counts code units
  and \<open>str.charCodeAt(i)\<close> returns the i-th code unit, a number in 0..65535.  Worker ids,
  user ids, file names and paths are all such strings.
\<close>

type_synonym code_unit = "16 word"
type_synonym jsstring = "code_unit list"

text \<open>String literals of the source, written with ASCII characters.\<close>

definition js :: "string \<Rightarrow> jsstring" where
  "js s = map (\<lambda>c. of_nat (of_char c)) s"

text \<open>
  \<open>String(i)\<close> inside a template literal, for a non-negative integer \<open>i\<close> (decimal digits,
  no leading zero; JavaScript switches to exponent notation only from \<open>1e21\<close> on, far beyond any
  loop counter of the program).
\<close>

fun numToString :: "nat \<Rightarrow> jsstring" where
  "numToString n =
     (if n < 10 then [48 + of_nat n]
      else numToString (n div 10) @ [48 + of_nat (n mod 10)])"

declare numToString.simps [simp del]

section \<open>The sticky router: hash function\<close>

text \<open>
  \<^verbatim>\<open>
  function fnv1aHash(str: string): number {
    let hash = 2166136261;
    for (let i = 0; i < str.length; i++) {
      hash ^= str.charCodeAt(i);
      hash = Math.imul(hash, 16777619);
    }
    return hash >>> 0;
  }
  \<close>
  \<open>^=\<close> and \<open>Math.imul\<close> work on the 32-bit two's complement image of their operands and
  \<open>>>> 0\<close> reads the result as unsigned, so the loop state is a 32-bit word; the code unit
  is XORed into it whole (all 16 bits).
\<close>

definition fnv_step :: "32 word \<Rightarrow> code_unit \<Rightarrow> 32 word" where
  "fnv_step hash c = (hash XOR ucast c) * 16777619"

definition fnv1aHash :: "jsstring \<Rightarrow> nat" where
  "fnv1aHash str = unat (foldl fnv_step 2166136261 str)"

subsection \<open>The hash as the specification words it\<close>

text \<open>
  The specification describes FNV-1a over the UTF-8 bytes of the key.  \<open>utf8_encode\<close> is the
  standard encoding of a UTF-16 string (surrogate pairs combine into one code point, a lone
  surrogate is encoded as U+FFFD), and \<open>fnv1a_utf8\<close> is the byte-wise hash with the stated
  offset basis and prime.
\<close>

definition is_high_surrogate :: "code_unit \<Rightarrow> bool" where
  "is_high_surrogate c = (0xD800 \<le> c \<and> c < 0xDC00)"

definition is_low_surrogate :: "code_unit \<Rightarrow> bool" where
  "is_low_surrogate c = (0xDC00 \<le> c \<and> c < 0xE000)"

definition scalar_of_unit :: "code_unit \<Rightarrow> nat" where
  "scalar_of_unit c = (if is_high_surrogate c \<or> is_low_surrogate c then 0xFFFD else unat c)"

definition utf8_of_codepoint :: "nat \<Rightarrow> 8 word list" where
  "utf8_of_codepoint cp =
     (if cp < 0x80 then [of_nat cp]
      else if cp < 0x800 then [of_nat (0xC0 + cp div 64), of_nat (0x80 + cp mod 64)]
      else if cp < 0x10000 then
        [of_nat (0xE0 + cp div 4096), of_nat (0x80 + (cp div 64) mod 64),
         of_nat (0x80 + cp mod 64)]
      else
        [of_nat (0xF0 + cp div 262144), of_nat (0x80 + (cp div 4096) mod 64),
         of_nat (0x80 + (cp div 64) mod 64), of_nat (0x80 + cp mod 64)])"

fun utf8_encode :: "jsstring \<Rightarrow> 8 word list" where
  "utf8_encode [] = []"
| "utf8_encode [c] = utf8_of_codepoint (scalar_of_unit c)"
| "utf8_encode (c # d # cs) =
     (if is_high_surrogate c \<and> is_low_surrogate d
      then utf8_of_codepoint (0x10000 + (unat c - 0xD800) * 1024 + (unat d - 0xDC00))
             @ utf8_encode cs
      else utf8_of_codepoint (scalar_of_unit c) @ utf8_encode (d # cs))"

definition fnv1a_byte_step :: "32 word \<Rightarrow> 8 word \<Rightarrow> 32 word" where
  "fnv1a_byte_step h b = (h XOR ucast b) * 0x01000193"

definition fnv1a_utf8 :: "jsstring \<Rightarrow> nat" where
  "fnv1a_utf8 key = unat (foldl fnv1a_byte_step 0x811C9DC5 (utf8_encode key))"

section \<open>The sticky router: state and operations\<close>

text \<open>
  \<^verbatim>\<open>interface HashRingNode { hash: number; workerId: WorkerId; virtualIndex: number; }\<close>
\<close>

record HashRingNode =
  hash :: nat
  workerId :: jsstring
  virtualIndex :: nat

text \<open>
  The fields of class \<open>StickyRouter\<close>.  \<open>workers\<close> is a JavaScript \<open>Set\<close> and
  \<open>routingCache\<close> a \<open>Map\<close>; both iterate in insertion order, which \<open>exportState\<close>
  exposes, so they are lists: the set a list without repetitions (\<open>add\<close> appends an absent
  element, \<open>delete\<close> removes it, \<open>has\<close> is membership), the map an association list with
  one entry per key (\<open>get\<close> is \<open>map_of\<close>, \<open>set\<close> overwrites in place or appends,
  \<open>delete\<close> removes the entry).  \<open>virtualNodes\<close> is used as a loop bound
  only and is a natural number.
\<close>

record StickyRouter =
  ring :: "HashRingNode list"
  workers :: "jsstring list"
  routingCache :: "(jsstring \<times> jsstring) list"
  virtualNodes :: nat

record RoutingDecision =
  rd_workerId :: jsstring
  rd_userId :: jsstring
  rd_hashValue :: nat
  rd_isNewAssignment :: bool

record StickyRouterState =
  st_workers :: "jsstring list"
  st_assignments :: "(jsstring \<times> jsstring) list"
  st_virtualNodes :: nat

text \<open>
  The three \<open>throw new Error(...)\<close> of the router: \<open>'Hash ring is empty'\<close> in
  \<open>findNode\<close>, \<open>'No workers available for routing'\<close> in \<open>route\<close> and
  \<open>'Worker ... not in routing pool'\<close> in \<open>forceAssign\<close>.
\<close>

datatype router_error = HashRingEmpty | NoWorkersAvailable | UnknownWorker jsstring

definition DEFAULT_VIRTUAL_NODES :: nat where
  "DEFAULT_VIRTUAL_NODES = 150"

text \<open>The constructor \<open>new StickyRouter(virtualNodes)\<close>.\<close>

definition new_StickyRouter :: "nat \<Rightarrow> StickyRouter" where
  "new_StickyRouter vn = \<lparr>ring = [], workers = [], routingCache = [], virtualNodes = vn\<rparr>"

text \<open>
  The loop of \<open>findNode\<close>; \<open>(left + right) >>> 1\<close> is the halved sum (the ring is far
  shorter than \<open>2^31\<close>).
\<close>

function bsearch :: "HashRingNode list \<Rightarrow> nat \<Rightarrow> nat \<Rightarrow> nat \<Rightarrow> nat" where
  "bsearch rg targetHash left right =
     (if left < right then
        (if hash (rg ! ((left + right) div 2)) < targetHash
         then bsearch rg targetHash ((left + right) div 2 + 1) right
         else bsearch rg targetHash left ((left + right) div 2))
      else left)"
  by pat_completeness auto
termination
  by (relation "measure (\<lambda>(rg, t, l, r). r - l)") auto

declare bsearch.simps [simp del]

definition findNode :: "HashRingNode list \<Rightarrow> nat \<Rightarrow> router_error + HashRingNode" where
  "findNode rg targetHash =
     (if length rg = 0 then Inl HashRingEmpty
      else if targetHash > hash (rg ! (length rg - 1)) then Inr (rg ! 0)
      else Inr (rg ! bsearch rg targetHash 0 (length rg - 1)))"

text \<open>The virtual-node key \<open>`${workerId}:${i}`\<close> and the nodes one \<open>addWorker\<close> pushes.\<close>

definition virtualKey :: "jsstring \<Rightarrow> nat \<Rightarrow> jsstring" where
  "virtualKey w i = w @ js '':'' @ numToString i"

definition newNodes :: "jsstring \<Rightarrow> nat \<Rightarrow> HashRingNode list" where
  "newNodes w vn =
     map (\<lambda>i. \<lparr>hash = fnv1aHash (virtualKey w i), workerId = w, virtualIndex = i\<rparr>) [0..<vn]"

text \<open>
  \<open>addWorker\<close>.  \<open>this.ring.sort((a, b) => a.hash - b.hash)\<close> is a stable sort by hash
  (the language guarantees stability), which is \<open>sort_key hash\<close>.  The call of
  \<open>invalidateAffectedRoutes\<close> at the end has an empty body.
\<close>

definition invalidateAffectedRoutes :: "jsstring \<Rightarrow> StickyRouter \<Rightarrow> StickyRouter" where
  "invalidateAffectedRoutes newWorkerId r = r"

definition addWorker :: "jsstring \<Rightarrow> StickyRouter \<Rightarrow> StickyRouter" where
  "addWorker w r =
     (if w \<in> set (workers r) then r
      else invalidateAffectedRoutes w
        (r\<lparr>workers := workers r @ [w],
           ring := sort_key hash (ring r @ newNodes w (virtualNodes r))\<rparr>))"

definition removeWorker :: "jsstring \<Rightarrow> StickyRouter \<Rightarrow> StickyRouter" where
  "removeWorker w r =
     (if w \<notin> set (workers r) then r
      else r\<lparr>workers := removeAll w (workers r),
             ring := filter (\<lambda>node. workerId node \<noteq> w) (ring r),
             routingCache := filter (\<lambda>(userId, cachedWorkerId). cachedWorkerId \<noteq> w)
                               (routingCache r)\<rparr>)"

text \<open>
  \<open>route\<close>.  The test \<open>cachedWorkerId && this.workers.has(cachedWorkerId)\<close> is a
  truthiness test: \<open>undefined\<close> (no entry) and the empty string are both falsy.
  \<open>cache_hit\<close> is the cached id when the whole test passes.
\<close>

definition truthy :: "jsstring option \<Rightarrow> bool" where
  "truthy v = (case v of None \<Rightarrow> False | Some s \<Rightarrow> s \<noteq> [])"

definition cache_hit :: "StickyRouter \<Rightarrow> jsstring option \<Rightarrow> jsstring option" where
  "cache_hit r cachedWorkerId =
     (case cachedWorkerId of
        None \<Rightarrow> None
      | Some cw \<Rightarrow> if cw \<noteq> [] \<and> cw \<in> set (workers r) then Some cw else None)"

definition route :: "jsstring \<Rightarrow> StickyRouter \<Rightarrow> router_error + (RoutingDecision \<times> StickyRouter)" where
  "route userId r =
     (if length (ring r) = 0 then Inl NoWorkersAvailable
      else
        let cachedWorkerId = map_of (routingCache r) userId in
        case cache_hit r cachedWorkerId of
          Some cw \<Rightarrow>
            Inr (\<lparr>rd_workerId = cw, rd_userId = userId, rd_hashValue = fnv1aHash userId,
                   rd_isNewAssignment = False\<rparr>, r)
        | None \<Rightarrow>
            let hashValue = fnv1aHash userId in
            (case findNode (ring r) hashValue of
               Inl e \<Rightarrow> Inl e
             | Inr node \<Rightarrow>
                 Inr (\<lparr>rd_workerId = workerId node, rd_userId = userId, rd_hashValue = hashValue,
                        rd_isNewAssignment = (\<not> truthy cachedWorkerId)\<rparr>,
                      r\<lparr>routingCache := AList.update userId (workerId node) (routingCache r)\<rparr>)))"

definition peek :: "jsstring \<Rightarrow> StickyRouter \<Rightarrow> router_error + jsstring option" where
  "peek userId r =
     (if length (ring r) = 0 then Inr None
      else case findNode (ring r) (fnv1aHash userId) of
             Inl e \<Rightarrow> Inl e
           | Inr node \<Rightarrow> Inr (Some (workerId node)))"

definition forceAssign :: "jsstring \<Rightarrow> jsstring \<Rightarrow> StickyRouter \<Rightarrow> router_error + StickyRouter" where
  "forceAssign userId w r =
     (if w \<notin> set (workers r) then Inl (UnknownWorker w)
      else Inr (r\<lparr>routingCache := AList.update userId w (routingCache r)\<rparr>))"

definition clearAssignment :: "jsstring \<Rightarrow> StickyRouter \<Rightarrow> StickyRouter" where
  "clearAssignment userId r = r\<lparr>routingCache := AList.delete userId (routingCache r)\<rparr>"

definition clearCache :: "StickyRouter \<Rightarrow> StickyRouter" where
  "clearCache r = r\<lparr>routingCache := []\<rparr>"

definition exportState :: "StickyRouter \<Rightarrow> StickyRouterState" where
  "exportState r =
     \<lparr>st_workers = workers r, st_assignments = routingCache r, st_virtualNodes = virtualNodes r\<rparr>"

definition import_assignment :: "StickyRouter \<Rightarrow> jsstring \<times> jsstring \<Rightarrow> StickyRouter" where
  "import_assignment router a =
     (case a of (userId, w) \<Rightarrow>
        if w \<in> set (workers router)
        then router\<lparr>routingCache := AList.update userId w (routingCache router)\<rparr>
        else router)"

definition fromState :: "StickyRouterState \<Rightarrow> StickyRouter" where
  "fromState state =
     foldl import_assignment
       (foldl (\<lambda>router w. addWorker w router) (new_StickyRouter (st_virtualNodes state))
          (st_workers state))
       (st_assignments state)"

text \<open>\<open>createStickyRouter(workerIds, virtualNodes?)\<close>: an omitted count is the default.\<close>

definition createStickyRouter :: "jsstring list \<Rightarrow> nat option \<Rightarrow> StickyRouter" where
  "createStickyRouter workerIds vn =
     foldl (\<lambda>router w. addWorker w router)
       (new_StickyRouter (case vn of None \<Rightarrow> DEFAULT_VIRTUAL_NODES | Some n \<Rightarrow> n)) workerIds"

section \<open>The sticky router: invariants\<close>

text \<open>
  The consistency invariant of the data model: cached users map to registered workers, every
  registered worker has exactly \<open>virtualNodes\<close> ring nodes, and every ring node belongs to a
  registered worker.
\<close>

definition router_inv :: "StickyRouter \<Rightarrow> bool" where
  "router_inv r \<longleftrightarrow>
     (\<forall>(userId, w) \<in> set (routingCache r). w \<in> set (workers r)) \<and>
     (\<forall>w \<in> set (workers r). length (filter (\<lambda>node. workerId node = w) (ring r)) = virtualNodes r) \<and>
     (\<forall>node \<in> set (ring r). workerId node \<in> set (workers r))"

text \<open>
  The ring that a worker list determines: all virtual nodes in insertion order of the workers,
  stably sorted by hash.  \<open>router_wf\<close> adds to the invariant what the container types give
  (a \<open>Set\<close> has no repetitions, a \<open>Map\<close> one entry per key) and that the ring is this ring.
  \<open>reachable\<close> are the routers that the public interface can build.
\<close>

definition canonical_ring :: "jsstring list \<Rightarrow> nat \<Rightarrow> HashRingNode list" where
  "canonical_ring ws vn = sort_key hash (concat (map (\<lambda>w. newNodes w vn) ws))"

definition router_wf :: "StickyRouter \<Rightarrow> bool" where
  "router_wf r \<longleftrightarrow>
     distinct (workers r) \<and> distinct (map fst (routingCache r)) \<and>
     (\<forall>(userId, w) \<in> set (routingCache r). w \<in> set (workers r)) \<and>
     ring r = canonical_ring (workers r) (virtualNodes r)"

inductive reachable :: "StickyRouter \<Rightarrow> bool" where
  reach_new: "reachable (new_StickyRouter vn)"
| reach_addWorker: "reachable r \<Longrightarrow> reachable (addWorker w r)"
| reach_removeWorker: "reachable r \<Longrightarrow> reachable (removeWorker w r)"
| reach_route: "reachable r \<Longrightarrow> route userId r = Inr (d, r') \<Longrightarrow> reachable r'"
| reach_forceAssign: "reachable r \<Longrightarrow> forceAssign userId w r = Inr r' \<Longrightarrow> reachable r'"
| reach_clearAssignment: "reachable r \<Longrightarrow> reachable (clearAssignment userId r)"
| reach_clearCache: "reachable r \<Longrightarrow> reachable (clearCache r)"
| reach_fromState: "reachable (fromState state)"

text \<open>
  What stickiness speaks about.  \<open>cached_on userId w r\<close>: in the consistent router \<open>r\<close>
  (with at least one virtual node per worker) the user is cached to the worker id \<open>w\<close>, which
  is not the empty string.  \<open>keeps_assignment userId w r r'\<close>: \<open>r'\<close> comes from \<open>r\<close> by
  any number of operations that neither remove the worker \<open>w\<close> nor evict or reassign the
  user: adding workers, removing other workers, routing any user, and force-assigning or
  clearing other users.
\<close>

definition cached_on :: "jsstring \<Rightarrow> jsstring \<Rightarrow> StickyRouter \<Rightarrow> bool" where
  "cached_on userId w r \<longleftrightarrow>
     router_inv r \<and> 0 < virtualNodes r \<and> map_of (routingCache r) userId = Some w \<and> w \<noteq> []"

inductive keeps_assignment :: "jsstring \<Rightarrow> jsstring \<Rightarrow> StickyRouter \<Rightarrow> StickyRouter \<Rightarrow> bool"
  for userId :: jsstring and w :: jsstring and r :: StickyRouter where
  keeps_now: "keeps_assignment userId w r r"
| keeps_addWorker: "keeps_assignment userId w r r' \<Longrightarrow> keeps_assignment userId w r (addWorker w' r')"
| keeps_removeWorker:
    "keeps_assignment userId w r r' \<Longrightarrow> w' \<noteq> w \<Longrightarrow> keeps_assignment userId w r (removeWorker w' r')"
| keeps_route:
    "keeps_assignment userId w r r' \<Longrightarrow> route userId' r' = Inr (d, r'') \<Longrightarrow>
     keeps_assignment userId w r r''"
| keeps_forceAssign:
    "keeps_assignment userId w r r' \<Longrightarrow> userId' \<noteq> userId \<Longrightarrow>
     forceAssign userId' w' r' = Inr r'' \<Longrightarrow> keeps_assignment userId w r r''"
| keeps_clearAssignment:
    "keeps_assignment userId w r r' \<Longrightarrow> userId' \<noteq> userId \<Longrightarrow>
     keeps_assignment userId w r (clearAssignment userId' r')"

section \<open>The worker sandbox: paths\<close>

subsection \<open>\<open>path.join\<close>\<close>

text \<open>
  The sandbox builds every path with \<open>join\<close> of Node's \<open>node:path\<close> module, which is
  not part of the repository.  It is modelled here after the documented algorithm of the POSIX
  variant: the non-empty arguments are concatenated with \<open>/\<close> between them and the result is
  normalised (\<open>normalizeString\<close> walks the segments, drops empty segments and \<open>.\<close>, lets
  \<open>..\<close> remove the segment before it, and keeps a leading \<open>..\<close> only in a relative path);
  an empty result is \<open>.\<close>.  The segments collected so far are kept with the last one first.
\<close>

fun split_slash :: "jsstring \<Rightarrow> jsstring list" where
  "split_slash [] = [[]]"
| "split_slash (c # cs) =
     (if c = 47 then [] # split_slash cs
      else (case split_slash cs of [] \<Rightarrow> [[c]] | seg # segs \<Rightarrow> (c # seg) # segs))"

fun join_slash :: "jsstring list \<Rightarrow> jsstring" where
  "join_slash [] = []"
| "join_slash [seg] = seg"
| "join_slash (seg # seg' # segs) = seg @ [47] @ join_slash (seg' # segs)"

definition norm_step :: "bool \<Rightarrow> jsstring list \<Rightarrow> jsstring \<Rightarrow> jsstring list" where
  "norm_step allowAboveRoot res seg =
     (if seg = [] \<or> seg = [46] then res
      else if seg = [46, 46] then
        (case res of
           [] \<Rightarrow> if allowAboveRoot then [seg] else []
         | lastSeg # rest \<Rightarrow>
             if lastSeg = [46, 46] then (if allowAboveRoot then seg # res else res) else rest)
      else seg # res)"

definition normalizeString :: "jsstring \<Rightarrow> bool \<Rightarrow> jsstring" where
  "normalizeString path allowAboveRoot =
     join_slash (rev (foldl (norm_step allowAboveRoot) [] (split_slash path)))"

definition isAbsolute :: "jsstring \<Rightarrow> bool" where
  "isAbsolute path = (case path of [] \<Rightarrow> False | c # cs \<Rightarrow> c = 47)"

definition normalize :: "jsstring \<Rightarrow> jsstring" where
  "normalize path =
     (if path = [] then js ''.''
      else
        let trailingSeparator = (last path = 47);
            p = normalizeString path (\<not> isAbsolute path)
        in if p = [] then
             (if isAbsolute path then js ''/'' else if trailingSeparator then js ''./'' else js ''.'')
           else (if isAbsolute path then [47] else []) @ p @ (if trailingSeparator then [47] else []))"

definition join :: "jsstring list \<Rightarrow> jsstring" where
  "join args =
     (case filter (\<lambda>arg. arg \<noteq> []) args of
        [] \<Rightarrow> js ''.''
      | parts \<Rightarrow> normalize (join_slash parts))"

text \<open>
  Where a path points: whether it is absolute, and its segments after normalisation (for a
  relative path the leading \<open>..\<close> segments stay).  A path is under a directory when both are
  of the same kind and the path's segments are the directory's followed by at least one more
  segment, none of which is \<open>..\<close>; the directory itself is not under itself.
\<close>

definition path_segments :: "jsstring \<Rightarrow> jsstring list" where
  "path_segments path = rev (foldl (norm_step (\<not> isAbsolute path)) [] (split_slash path))"

definition is_under :: "jsstring \<Rightarrow> jsstring \<Rightarrow> bool" where
  "is_under dirPath path \<longleftrightarrow>
     isAbsolute path = isAbsolute dirPath
     \<and> take (length (path_segments dirPath)) (path_segments path) = path_segments dirPath
     \<and> drop (length (path_segments dirPath)) (path_segments path) \<noteq> []
     \<and> [46, 46] \<notin> set (drop (length (path_segments dirPath)) (path_segments path))"

definition same_location :: "jsstring \<Rightarrow> jsstring \<Rightarrow> bool" where
  "same_location path path' \<longleftrightarrow>
     isAbsolute path = isAbsolute path' \<and> path_segments path = path_segments path'"

text \<open>
  The stacks that \<open>normalizeString\<close> builds (last segment first): segments are non-empty,
  free of \<open>/\<close> and different from \<open>.\<close>; \<open>..\<close> occurs only at the far end, and only when
  going above the root is allowed.
\<close>

fun normal_stack :: "bool \<Rightarrow> jsstring list \<Rightarrow> bool" where
  "normal_stack a [] = True"
| "normal_stack a (seg # st) =
     (normal_stack a st \<and> seg \<noteq> [] \<and> 47 \<notin> set seg \<and> seg \<noteq> [46]
      \<and> (seg = [46, 46] \<longrightarrow> a \<and> (case st of [] \<Rightarrow> True | s # _ \<Rightarrow> s = [46, 46])))"

subsection \<open>The sandbox and its path helpers\<close>

record SandboxPaths =
  p_root :: jsstring
  p_sessions :: jsstring
  p_temp :: jsstring
  p_cache :: jsstring
  p_state :: jsstring
  p_logs :: jsstring
  p_credentials :: jsstring
  p_config :: jsstring
  p_keys :: jsstring

record WorkerSandbox =
  sb_workerId :: jsstring
  paths :: SandboxPaths
  initialized :: bool

text \<open>The constructor \<open>new WorkerSandbox(workerId, baseDir)\<close>.\<close>

definition new_WorkerSandbox :: "jsstring \<Rightarrow> jsstring \<Rightarrow> WorkerSandbox" where
  "new_WorkerSandbox wid baseDir =
     (let workerRoot = join [baseDir, wid] in
      \<lparr>sb_workerId = wid,
       paths = \<lparr>p_root = workerRoot,
                p_sessions = join [workerRoot, js ''sessions''],
                p_temp = join [workerRoot, js ''temp''],
                p_cache = join [workerRoot, js ''cache''],
                p_state = join [workerRoot, js ''state''],
                p_logs = join [workerRoot, js ''logs''],
                p_credentials = join [workerRoot, js ''credentials''],
                p_config = join [workerRoot, js ''config''],
                p_keys = join [workerRoot, js ''keys'']\<rparr>,
       initialized = False\<rparr>)"

text \<open>
  \<open>s.replace(/[^a-zA-Z0-9_-]/g, '_')\<close> and \<open>s.replace(/[^a-zA-Z0-9._-]/g, '_')\<close>: the
  pattern has no \<open>u\<close> flag, so every code unit outside the class is replaced by an underscore.
\<close>

definition is_alnum :: "code_unit \<Rightarrow> bool" where
  "is_alnum c = ((97 \<le> c \<and> c \<le> 122) \<or> (65 \<le> c \<and> c \<le> 90) \<or> (48 \<le> c \<and> c \<le> 57))"

definition id_char :: "code_unit \<Rightarrow> bool" where
  "id_char c = (is_alnum c \<or> c = 95 \<or> c = 45)"

definition name_char :: "code_unit \<Rightarrow> bool" where
  "name_char c = (is_alnum c \<or> c = 46 \<or> c = 95 \<or> c = 45)"

definition replace_outside :: "(code_unit \<Rightarrow> bool) \<Rightarrow> jsstring \<Rightarrow> jsstring" where
  "replace_outside allowed s = map (\<lambda>c. if allowed c then c else 95) s"

definition getSessionPath :: "WorkerSandbox \<Rightarrow> jsstring \<Rightarrow> jsstring" where
  "getSessionPath sb sessionId =
     (let safeId = replace_outside id_char sessionId
      in join [p_sessions (paths sb), safeId @ js ''.json''])"

definition getTempPath :: "WorkerSandbox \<Rightarrow> jsstring \<Rightarrow> jsstring" where
  "getTempPath sb filename =
     (let safeFilename = replace_outside name_char filename
      in join [p_temp (paths sb), safeFilename])"

definition getCachePath :: "WorkerSandbox \<Rightarrow> jsstring \<Rightarrow> jsstring" where
  "getCachePath sb key =
     (let safeKey = replace_outside name_char key
      in join [p_cache (paths sb), safeKey])"

definition getStatePath :: "WorkerSandbox \<Rightarrow> jsstring \<Rightarrow> jsstring" where
  "getStatePath sb name =
     (let safeName = replace_outside name_char name
      in join [p_state (paths sb), safeName @ js ''.json''])"

definition getLogPath :: "WorkerSandbox \<Rightarrow> jsstring \<Rightarrow> jsstring" where
  "getLogPath sb name =
     (let safeName = replace_outside name_char name
      in join [p_logs (paths sb), safeName @ js ''.log''])"

section \<open>The worker sandbox: instance keys\<close>

text \<open>
  The files of the disk as far as the sandbox reads and writes them: a map from paths to the
  text of regular files; \<open>readFile\<close> of an absent path throws, \<open>writeFile\<close> stores the text
  (the directories exist, \<open>initialize\<close> has created them).  A \<open>Buffer\<close> is a list of bytes.
\<close>

type_synonym filesystem = "jsstring \<rightharpoonup> jsstring"

record InstanceKeys =
  privateKey :: "8 word list"
  instanceId :: jsstring
  fingerprint :: jsstring

record SandboxMetadata =
  md_workerId :: jsstring
  createdAt :: nat
  lastAccessed :: nat
  version :: nat
  keyFingerprint :: "jsstring option"

definition SANDBOX_VERSION :: nat where
  "SANDBOX_VERSION = 1"

definition METADATA_FILE :: jsstring where
  "METADATA_FILE = js ''sandbox.json''"

text \<open>
  What one run of \<open>initialize\<close> takes from outside the program: the bytes that
  \<open>crypto.randomBytes\<close> delivers (in order), the values of \<open>Date.now()\<close> at its three call
  sites, and \<open>JSON.stringify\<close> and \<open>JSON.parse\<close> on metadata (a text that does not parse
  throws, which \<open>getMetadata\<close> catches).
\<close>

record InitEnv =
  random :: "nat \<Rightarrow> 8 word"
  now_instance :: nat
  now_created :: nat
  now_accessed :: nat
  stringify :: "SandboxMetadata \<Rightarrow> jsstring"
  parse :: "jsstring \<Rightarrow> SandboxMetadata option"

definition randomBytes :: "(nat \<Rightarrow> 8 word) \<Rightarrow> nat \<Rightarrow> nat \<Rightarrow> 8 word list" where
  "randomBytes src offset n = map src [offset..<offset + n]"

text \<open>\<open>buf.toString('hex')\<close>: two lower-case hexadecimal digits per byte.\<close>

definition hex_digit :: "nat \<Rightarrow> code_unit" where
  "hex_digit n = (if n < 10 then 48 + of_nat n else 87 + of_nat n)"

definition toHex :: "8 word list \<Rightarrow> jsstring" where
  "toHex bytes = concat (map (\<lambda>b. [hex_digit (unat b div 16), hex_digit (unat b mod 16)]) bytes)"

text \<open>
  \<open>Buffer.from(text, 'hex')\<close>: pairs of hexadecimal digits, either case, up to the first pair
  that is not one; it does not throw.
\<close>

definition hex_value :: "code_unit \<Rightarrow> nat option" where
  "hex_value c =
     (if 48 \<le> c \<and> c \<le> 57 then Some (unat c - 48)
      else if 97 \<le> c \<and> c \<le> 102 then Some (unat c - 87)
      else if 65 \<le> c \<and> c \<le> 70 then Some (unat c - 55)
      else None)"

fun fromHex :: "jsstring \<Rightarrow> 8 word list" where
  "fromHex (a # b # rest) =
     (case hex_value a of
        None \<Rightarrow> []
      | Some x \<Rightarrow> (case hex_value b of None \<Rightarrow> [] | Some y \<Rightarrow> of_nat (16 * x + y) # fromHex rest))"
| "fromHex [a] = []"
| "fromHex [] = []"

text \<open>\<open>text.trim()\<close>: white space and line terminators are removed at both ends.\<close>

definition is_white_space :: "code_unit \<Rightarrow> bool" where
  "is_white_space c =
     (c = 9 \<or> c = 10 \<or> c = 11 \<or> c = 12 \<or> c = 13 \<or> c = 32 \<or> c = 0xA0 \<or> c = 0x1680
      \<or> (0x2000 \<le> c \<and> c \<le> 0x200A) \<or> c = 0x2028 \<or> c = 0x2029 \<or> c = 0x202F
      \<or> c = 0x205F \<or> c = 0x3000 \<or> c = 0xFEFF)"

definition trim :: "jsstring \<Rightarrow> jsstring" where
  "trim s = rev (dropWhile is_white_space (rev (dropWhile is_white_space s)))"

definition keyPath :: "WorkerSandbox \<Rightarrow> jsstring" where
  "keyPath sb = join [p_keys (paths sb), js ''instance.key'']"

definition idPath :: "WorkerSandbox \<Rightarrow> jsstring" where
  "idPath sb = join [p_keys (paths sb), js ''instance.id'']"

definition metadataPath :: "WorkerSandbox \<Rightarrow> jsstring" where
  "metadataPath sb = join [p_root (paths sb), METADATA_FILE]"

text \<open>
  \<open>generateInstanceKeys\<close>: 32 random bytes, their first 8 bytes in hex as fingerprint, the
  id \<open>`${workerId}-${Date.now()}-${randomBytes(4).toString('hex')}`\<close>, and both files written.
\<close>

definition generateInstanceKeys :: "InitEnv \<Rightarrow> WorkerSandbox \<Rightarrow> filesystem \<Rightarrow> InstanceKeys \<times> filesystem" where
  "generateInstanceKeys env sb fs =
     (let key = randomBytes (random env) 0 32;
          fp = toHex (take 8 key);
          iid = sb_workerId sb @ js ''-'' @ numToString (now_instance env) @ js ''-''
                  @ toHex (randomBytes (random env) 32 4)
      in (\<lparr>privateKey = key, instanceId = iid, fingerprint = fp\<rparr>,
          fs(keyPath sb \<mapsto> toHex key, idPath sb \<mapsto> iid)))"

text \<open>
  \<open>getOrCreateInstanceKeys\<close>: both files are read inside one \<open>try\<close>; when either read
  throws, the \<open>catch\<close> generates new keys.
\<close>

definition getOrCreateInstanceKeys :: "InitEnv \<Rightarrow> WorkerSandbox \<Rightarrow> filesystem \<Rightarrow> InstanceKeys \<times> filesystem" where
  "getOrCreateInstanceKeys env sb fs =
     (case fs (keyPath sb) of
        None \<Rightarrow> generateInstanceKeys env sb fs
      | Some privateKeyHex \<Rightarrow>
          (case fs (idPath sb) of
             None \<Rightarrow> generateInstanceKeys env sb fs
           | Some iid \<Rightarrow>
               let key = fromHex (trim privateKeyHex)
               in (\<lparr>privateKey = key, instanceId = trim iid, fingerprint = toHex (take 8 key)\<rparr>,
                   fs)))"

definition getMetadata :: "InitEnv \<Rightarrow> WorkerSandbox \<Rightarrow> filesystem \<Rightarrow> SandboxMetadata option" where
  "getMetadata env sb fs =
     (case fs (metadataPath sb) of None \<Rightarrow> None | Some content \<Rightarrow> parse env content)"

text \<open>
  \<open>initialize\<close>: nothing when this object is already initialised; otherwise the directories
  are made, the keys are read or generated, and the metadata is written with the
  \<open>createdAt\<close> of the existing metadata, if any.
\<close>

definition initialize :: "InitEnv \<Rightarrow> WorkerSandbox \<Rightarrow> filesystem \<Rightarrow> WorkerSandbox \<times> filesystem" where
  "initialize env sb fs =
     (if initialized sb then (sb, fs)
      else
        case getOrCreateInstanceKeys env sb fs of
          (keys, fs1) \<Rightarrow>
            let metadata = \<lparr>md_workerId = sb_workerId sb, createdAt = now_created env,
                              lastAccessed = now_accessed env, version = SANDBOX_VERSION,
                              keyFingerprint = Some (fingerprint keys)\<rparr>;
                metadata' = (case getMetadata env sb fs1 of
                               None \<Rightarrow> metadata
                             | Some existingMetadata \<Rightarrow>
                                 metadata\<lparr>createdAt := createdAt existingMetadata\<rparr>)
            in (sb\<lparr>initialized := True\<rparr>, fs1(metadataPath sb \<mapsto> stringify env metadata')))"

datatype sandbox_error = SandboxNotInitialized

definition getInstanceKeys :: "InitEnv \<Rightarrow> WorkerSandbox \<Rightarrow> filesystem \<Rightarrow> sandbox_error + (InstanceKeys \<times> filesystem)" where
  "getInstanceKeys env sb fs =
     (if \<not> initialized sb then Inl SandboxNotInitialized
      else Inr (getOrCreateInstanceKeys env sb fs))"

text \<open>
  An environment for examples: the random bytes count up from a seed, the clock reads
  1700000000000, metadata is written as an empty text and never parses.
\<close>

definition example_env :: "nat \<Rightarrow> InitEnv" where
  "example_env seed =
     \<lparr>random = (\<lambda>i. of_nat (seed + i)), now_instance = 1700000000000,
      now_created = 1700000000000, now_accessed = 1700000000000,
      stringify = (\<lambda>m. []), parse = (\<lambda>s. None)\<rparr>"

text \<open>
  The sandbox of \<open>worker-0\<close> under the default base directory; its first initialisation on an
  empty disk and a second one by a new object on the disk the first one left; and a disk that
  holds an \<open>instance.key\<close> (32 bytes \<open>0xAA\<close>) but no \<open>instance.id\<close>.
\<close>

definition example_sandbox :: WorkerSandbox where
  "example_sandbox = new_WorkerSandbox (js ''worker-0'') (js ''/tmp/moltbot-workers'')"

definition first_boot :: "WorkerSandbox \<times> filesystem" where
  "first_boot = initialize (example_env 16) example_sandbox Map.empty"

definition second_boot :: "WorkerSandbox \<times> filesystem" where
  "second_boot = initialize (example_env 100) example_sandbox (snd first_boot)"

definition orphan_key_fs :: filesystem where
  "orphan_key_fs = [keyPath example_sandbox \<mapsto> toHex (replicate 32 0xAA)]"

section \<open>The worker pool: exit handling and restart\<close>

text \<open>
  \<open>WorkerState\<close>, the fields of \<open>WorkerPoolConfig\<close> that the exit handler reads, and the
  \<open>WorkerInstance\<close> record of a slot (the child handle is its process id, a pending
  correlation its request id; health and the spawn configuration play no part here).
  Times are \<open>Date.now()\<close> values in milliseconds.
\<close>

datatype WorkerState = Starting | Ready | Busy | Stopping | Stopped | Crashed

record WorkerPoolConfig =
  restartDelay :: int
  maxRestartAttempts :: int
  restartWindow :: int

record WorkerInstance =
  wi_workerId :: jsstring
  process :: "nat option"
  state :: WorkerState
  restartCount :: nat
  restartTimes :: "int list"
  pendingRequests :: "jsstring list"

record WorkerPool =
  config :: WorkerPoolConfig
  pool_workers :: "jsstring \<rightharpoonup> WorkerInstance"
  stopping :: bool

text \<open>\<open>DEFAULT_WORKER_POOL_CONFIG\<close>, restricted to these fields.\<close>

definition DEFAULT_WORKER_POOL_CONFIG :: WorkerPoolConfig where
  "DEFAULT_WORKER_POOL_CONFIG =
     \<lparr>restartDelay = 1000, maxRestartAttempts = 5, restartWindow = 60000\<rparr>"

text \<open>
  What the handlers do besides updating the pool: rejecting a pending request, emitting
  \<open>worker:crash\<close> or \<open>worker:restart\<close>, calling \<open>checkPoolHealth\<close>, and arming the
  restart timer (\<open>setTimeout(..., restartDelay)\<close>; its callback reads the
  \<open>restartCount\<close> of the record the handler worked on).
\<close>

datatype pool_effect =
    RejectPending jsstring jsstring
  | EmitWorkerCrash jsstring
  | EmitWorkerRestart jsstring nat
  | CheckPoolHealth
  | SetRestartTimer jsstring int nat

text \<open>
  \<^verbatim>\<open>
  worker.process = null; worker.state = WorkerState.Stopped;
  if (this.stopping) return;
  const now = Date.now();
  worker.restartTimes = worker.restartTimes.filter((t) => now - t < this.config.restartWindow);
  if (worker.restartTimes.length >= this.config.maxRestartAttempts) {
    worker.state = WorkerState.Crashed; this.emit("worker:crash", ...); this.checkPoolHealth();
    return;
  }
  worker.restartCount++; worker.restartTimes.push(now);
  setTimeout(..., this.config.restartDelay);
  \<close>
\<close>

definition handleWorkerExit :: "jsstring \<Rightarrow> int \<Rightarrow> WorkerPool \<Rightarrow> WorkerPool \<times> pool_effect list" where
  "handleWorkerExit wid now pool =
     (case pool_workers pool wid of
        None \<Rightarrow> (pool, [])
      | Some worker \<Rightarrow>
          let rejected = map (RejectPending wid) (pendingRequests worker);
              worker1 = worker\<lparr>pendingRequests := [], process := None, state := Stopped\<rparr>
          in if stopping pool
             then (pool\<lparr>pool_workers := (pool_workers pool)(wid \<mapsto> worker1)\<rparr>, rejected)
             else
               let worker2 = worker1\<lparr>restartTimes :=
                     filter (\<lambda>t. now - t < restartWindow (config pool)) (restartTimes worker1)\<rparr>
               in if int (length (restartTimes worker2)) \<ge> maxRestartAttempts (config pool)
                  then (pool\<lparr>pool_workers :=
                               (pool_workers pool)(wid \<mapsto> worker2\<lparr>state := Crashed\<rparr>)\<rparr>,
                        rejected @ [EmitWorkerCrash wid, CheckPoolHealth])
                  else
                    let worker3 = worker2\<lparr>restartCount := restartCount worker2 + 1,
                                          restartTimes := restartTimes worker2 @ [now]\<rparr>
                    in (pool\<lparr>pool_workers := (pool_workers pool)(wid \<mapsto> worker3)\<rparr>,
                        rejected @ [SetRestartTimer wid (restartDelay (config pool))
                                      (restartCount worker3)]))"

text \<open>
  \<open>spawnWorker\<close>, as far as the slot record goes: it builds a new \<open>WorkerInstance\<close>
  (\<open>restartCount: 0, restartTimes: []\<close>), stores it under the worker id with
  \<open>this.workers.set(workerId, worker)\<close> and attaches the forked child (\<open>pid\<close>).  The restart
  timer's callback emits \<open>worker:restart\<close> and calls it, unless the pool is stopping.
\<close>

definition spawnWorker :: "jsstring \<Rightarrow> nat \<Rightarrow> WorkerPool \<Rightarrow> WorkerPool" where
  "spawnWorker wid pid pool =
     pool\<lparr>pool_workers := (pool_workers pool)(wid \<mapsto>
       \<lparr>wi_workerId = wid, process = Some pid, state = Starting, restartCount = 0,
        restartTimes = [], pendingRequests = []\<rparr>)\<rparr>"

definition restartTimerFired :: "jsstring \<Rightarrow> nat \<Rightarrow> nat \<Rightarrow> WorkerPool \<Rightarrow> WorkerPool \<times> pool_effect list" where
  "restartTimerFired wid attempt pid pool =
     (if \<not> stopping pool
      then (spawnWorker wid pid pool, [EmitWorkerRestart wid attempt])
      else (pool, []))"

text \<open>
  One crash of a running slot followed by its timed restart, and a run of such crashes at the
  given times (the child of the i-th restart has process id i).
\<close>

definition crash_and_restart :: "jsstring \<Rightarrow> WorkerPool \<Rightarrow> int \<times> nat \<Rightarrow> WorkerPool" where
  "crash_and_restart wid pool ev =
     (case ev of (now, pid) \<Rightarrow>
        (case handleWorkerExit wid now pool of
           (pool1, effects) \<Rightarrow>
             (case [a. SetRestartTimer w d a \<leftarrow> effects] of
                [] \<Rightarrow> pool1
              | attempt # _ \<Rightarrow> fst (restartTimerFired wid attempt pid pool1))))"

definition crashes :: "jsstring \<Rightarrow> int list \<Rightarrow> WorkerPool \<Rightarrow> WorkerPool" where
  "crashes wid exit_times pool =
     foldl (crash_and_restart wid) pool (zip exit_times [1..<Suc (length exit_times)])"

text \<open>
  A pool with the default configuration after \<open>start()\<close> has spawned \<open>worker-0\<close>
  (child process id 0).
\<close>

definition started_pool :: WorkerPool where
  "started_pool =
     spawnWorker (js ''worker-0'') 0
       \<lparr>config = DEFAULT_WORKER_POOL_CONFIG, pool_workers = Map.empty, stopping = False\<rparr>"

text \<open>
  A slot as \<open>spawnWorker\<close> leaves it, in a pool that is not stopping and allows at least
  one restart.
\<close>

definition fresh_slot :: "jsstring \<Rightarrow> WorkerPool \<Rightarrow> bool" where
  "fresh_slot wid pool \<longleftrightarrow>
     \<not> stopping pool \<and> 0 < maxRestartAttempts (config pool)
     \<and> (\<exists>pid. pool_workers pool wid
           = Some \<lparr>wi_workerId = wid, process = Some pid, state = Starting, restartCount = 0,
                   restartTimes = [], pendingRequests = []\<rparr>)"

section \<open>Properties of the hash function\<close>

lemma fnv1aHash_uint32: "fnv1aHash str < 2 ^ 32"
  unfolding fnv1aHash_def using unsigned_less [of "foldl fnv_step 2166136261 str"] by simp

lemma ascii_unit_not_surrogate:
  assumes "c < (0x80 :: code_unit)"
  shows "scalar_of_unit c = unat c" and "unat c < 0x80"
proof -
  from assms show "unat c < 0x80" by (simp add: word_less_nat_alt)
  from assms have "\<not> (0xD800 :: code_unit) \<le> c" and "\<not> (0xDC00 :: code_unit) \<le> c"
    by (simp_all add: word_less_nat_alt word_le_nat_alt)
  then show "scalar_of_unit c = unat c"
    by (simp add: scalar_of_unit_def is_high_surrogate_def is_low_surrogate_def)
qed

lemma utf8_encode_ascii:
  "\<forall>c\<in>set key. c < 0x80 \<Longrightarrow> utf8_encode key = map ucast key"
proof (induction key rule: utf8_encode.induct)
  case 1
  then show ?case by simp
next
  case (2 c)
  then have "c < 0x80" by simp
  from ascii_unit_not_surrogate [OF this] show ?case
    by (simp add: utf8_of_codepoint_def)
next
  case (3 c d cs)
  then have c: "c < 0x80" by simp
  then have "\<not> is_high_surrogate c"
    by (simp add: is_high_surrogate_def word_less_nat_alt word_le_nat_alt)
  with 3 ascii_unit_not_surrogate [OF c] show ?case
    by (simp add: utf8_of_codepoint_def)
qed

lemma ascii_unit_high_bits_clear: "\<not> bit c n" if "c < 0x80" "7 \<le> n" for c :: code_unit
proof -
  from that have "unat c < 2 ^ 7" by (simp add: word_less_nat_alt)
  also have "(2::nat) ^ 7 \<le> 2 ^ n" using that by (intro power_increasing) simp_all
  finally have "unat c div 2 ^ n = 0" by simp
  then have "\<not> bit (unat c) n" by (simp add: bit_iff_odd)
  then show ?thesis by (simp add: bit_unsigned_iff)
qed

lemma ucast_ascii_via_byte:
  "(ucast (ucast c :: 8 word) :: 32 word) = ucast c" if "c < 0x80" for c :: code_unit
proof (rule bit_word_eqI)
  fix n assume "n < LENGTH(32)"
  show "bit (ucast (ucast c :: 8 word) :: 32 word) n = bit (ucast c :: 32 word) n"
    using ascii_unit_high_bits_clear [OF that, of n]
    by (cases "n < 7") (auto simp add: bit_ucast_iff)
qed

lemma fnv_step_ascii: "fnv1a_byte_step h (ucast c) = fnv_step h c" if "c < 0x80" for c :: code_unit
  using ucast_ascii_via_byte [OF that] by (simp add: fnv1a_byte_step_def fnv_step_def)

lemma foldl_fnv_ascii:
  "\<forall>c\<in>set key. c < 0x80 \<Longrightarrow> foldl fnv1a_byte_step h (map ucast key) = foldl fnv_step h key"
  by (induction key arbitrary: h) (simp_all add: fnv_step_ascii)

text \<open>
  Claim C3, as amended: the implemented hash is FNV-1a (offset basis 0x811C9DC5, prime
  0x01000193, XOR then multiply, folded to an unsigned 32-bit integer) taken over the UTF-16 code
  units of the key.  For keys made of ASCII characters only (such as \<open>user-17\<close> or a
  virtual-node key \<open>worker-0:3\<close>) this is exactly FNV-1a over the UTF-8 bytes of the key, and
  the result is always below \<open>2^32\<close>.
\<close>

theorem fnv1aHash_ascii_is_fnv1a_utf8:
  "\<forall>c\<in>set key. c < 0x80 \<Longrightarrow> fnv1aHash key = fnv1a_utf8 key \<and> fnv1aHash key < 2 ^ 32"
  using fnv1aHash_uint32 [of key]
  by (simp add: fnv1aHash_def fnv1a_utf8_def utf8_encode_ascii foldl_fnv_ascii)

theorem fnv1aHash_ascii_witness:
  "list_all (\<lambda>c. c < 0x80) (js ''worker-0:3'')
   \<and> fnv1aHash (js ''worker-0:3'') = fnv1a_utf8 (js ''worker-0:3'')
   \<and> fnv1aHash (js ''worker-0:3'') < 2 ^ 32"
proof -
  have h: "\<forall>c\<in>set (js ''worker-0:3''). c < 0x80" by (simp add: js_def)
  show ?thesis using h fnv1aHash_ascii_is_fnv1a_utf8 [OF h] by (simp add: list_all_iff)
qed

text \<open>
  Claim C3 as stated fails on a key with a non-ASCII character: for the one-character user id
  U+00E9 the code hashes the single code unit 0xE9, while the UTF-8 bytes are 0xC3 0xA9.
\<close>

theorem fnv1aHash_not_utf8_counterexample:
  "fnv1aHash [0xE9] = 1812687940 \<and> fnv1a_utf8 [0xE9] = 513665217
   \<and> fnv1aHash [0xE9] \<noteq> fnv1a_utf8 [0xE9]"
  by (simp add: fnv1aHash_def fnv_step_def fnv1a_utf8_def fnv1a_byte_step_def
      utf8_of_codepoint_def scalar_of_unit_def is_high_surrogate_def is_low_surrogate_def)

section \<open>Properties of the ring lookup\<close>

lemma workerId_newNodes: "node \<in> set (newNodes w vn) \<Longrightarrow> workerId node = w"
  by (auto simp: newNodes_def)

lemma length_newNodes: "length (newNodes w vn) = vn"
  by (simp add: newNodes_def)

lemma filter_newNodes:
  "filter (\<lambda>node. workerId node = w') (newNodes w vn) = (if w' = w then newNodes w vn else [])"
  by (auto simp: newNodes_def filter_empty_conv)

lemma length_filter_sort_key:
  "length (filter P (sort_key f xs)) = length (filter P xs)"
  by (simp add: filter_sort)

lemma bsearch_bounds:
  "left \<le> right \<Longrightarrow> left \<le> bsearch rg t left right \<and> bsearch rg t left right \<le> right"
proof (induction rg t left right rule: bsearch.induct)
  case (1 rg t left right)
  show ?case
  proof (cases "left < right")
    case True
    then have mid: "left \<le> (left + right) div 2" "(left + right) div 2 + 1 \<le> right"
      by arith+
    show ?thesis
    proof (cases "hash (rg ! ((left + right) div 2)) < t")
      case lt: True
      from "1.IH"(1) [OF True lt mid(2)] mid True lt show ?thesis
        by (subst (1 2) bsearch.simps) simp
    next
      case ge: False
      from "1.IH"(2) [OF True ge mid(1)] mid True ge show ?thesis
        by (subst (1 2) bsearch.simps) simp
    qed
  next
    case False
    with 1 show ?thesis by (subst (1 2) bsearch.simps) simp
  qed
qed

lemma findNode_empty: "findNode [] t = Inl HashRingEmpty"
  by (simp add: findNode_def)

lemma findNode_nonempty:
  assumes "rg \<noteq> []"
  shows "\<exists>node. findNode rg t = Inr node \<and> node \<in> set rg"
proof -
  from assms have len: "0 < length rg" by simp
  moreover have "bsearch rg t 0 (length rg - 1) \<le> length rg - 1"
    using bsearch_bounds [of 0 "length rg - 1" rg t] by simp
  ultimately have "bsearch rg t 0 (length rg - 1) < length rg" by arith
  then have "rg ! bsearch rg t 0 (length rg - 1) \<in> set rg" by (rule nth_mem)
  moreover from len have "rg ! 0 \<in> set rg" by (rule nth_mem)
  ultimately show ?thesis using assms by (simp add: findNode_def)
qed

lemma findNode_Inr_mem: "findNode rg t = Inr node \<Longrightarrow> node \<in> set rg"
  using findNode_nonempty [of rg t] by (cases "rg = []") (auto simp: findNode_empty)

lemma findNode_Inl_iff: "findNode rg t = Inl e \<longleftrightarrow> rg = [] \<and> e = HashRingEmpty"
  using findNode_nonempty [of rg t] by (cases "rg = []") (auto simp: findNode_empty)

lemma router_inv_new: "router_inv (new_StickyRouter vn)"
  by (simp add: router_inv_def new_StickyRouter_def)

lemma router_inv_addWorker: "router_inv r \<Longrightarrow> router_inv (addWorker w r)"
  unfolding router_inv_def addWorker_def invalidateAffectedRoutes_def
  by (auto simp: filter_sort filter_newNodes length_newNodes filter_empty_conv
        dest: workerId_newNodes)

lemma filter_other_worker:
  "w' \<noteq> w \<Longrightarrow>
   filter (\<lambda>node. workerId node = w') (filter (\<lambda>node. workerId node \<noteq> w) rg)
     = filter (\<lambda>node. workerId node = w') rg"
  by (induction rg) auto

lemma router_inv_removeWorker: "router_inv r \<Longrightarrow> router_inv (removeWorker w r)"
  unfolding router_inv_def removeWorker_def
  by (auto simp: filter_other_worker simp del: filter_filter)

lemma in_set_AList_update:
  "(a, b) \<in> set (AList.update k v al) \<Longrightarrow> (a, b) = (k, v) \<or> (a, b) \<in> set al"
  by (induction al) (auto split: if_splits)

lemma set_AList_delete: "set (AList.delete k al) \<subseteq> set al"
  by (auto simp: AList.delete_eq)

lemma router_inv_update:
  "router_inv r \<Longrightarrow> w \<in> set (workers r) \<Longrightarrow>
   router_inv (r\<lparr>routingCache := AList.update u w (routingCache r)\<rparr>)"
  unfolding router_inv_def by (auto dest: in_set_AList_update)

lemma router_inv_route: "router_inv r \<Longrightarrow> route u r = Inr (d, r') \<Longrightarrow> router_inv r'"
  unfolding route_def Let_def
  by (auto split: if_splits option.splits sum.splits
        dest!: findNode_Inr_mem intro!: router_inv_update)
     (simp add: router_inv_def)

lemma router_inv_forceAssign: "router_inv r \<Longrightarrow> forceAssign u w r = Inr r' \<Longrightarrow> router_inv r'"
  unfolding forceAssign_def by (auto split: if_splits intro: router_inv_update)

lemma router_inv_clearAssignment: "router_inv r \<Longrightarrow> router_inv (clearAssignment u r)"
  unfolding router_inv_def clearAssignment_def
  using set_AList_delete [of u "routingCache r"] by auto

lemma router_inv_clearCache: "router_inv r \<Longrightarrow> router_inv (clearCache r)"
  unfolding router_inv_def clearCache_def by auto

lemma router_inv_foldl_addWorker:
  "router_inv r \<Longrightarrow> router_inv (foldl (\<lambda>router w. addWorker w router) r ws)"
  by (induction ws arbitrary: r) (simp_all add: router_inv_addWorker)

lemma router_inv_import_assignment: "router_inv r \<Longrightarrow> router_inv (import_assignment r a)"
  unfolding import_assignment_def by (auto split: prod.splits intro: router_inv_update)

lemma router_inv_foldl_import:
  "router_inv r \<Longrightarrow> router_inv (foldl import_assignment r as)"
  by (induction as arbitrary: r) (simp_all add: router_inv_import_assignment)

lemma router_inv_fromState: "router_inv (fromState st)"
  unfolding fromState_def
  by (intro router_inv_foldl_import router_inv_foldl_addWorker router_inv_new)

section \<open>The ring is determined by the worker list\<close>

lemma sort_key_sort_key_append:
  "sort_key f (sort_key f xs @ ys) = sort_key f (xs @ ys)"
proof (rule properties_for_sort_key)
  show "mset (sort_key f (xs @ ys)) = mset (sort_key f xs @ ys)" by simp
  show "sorted (map f (sort_key f (xs @ ys)))" by simp
  fix k
  have "filter (\<lambda>x. f x = f k) (sort_key f (xs @ ys)) = filter (\<lambda>x. f x = f k) (sort_key f xs @ ys)"
    by (simp add: sort_key_stable)
  then show "filter (\<lambda>x. f k = f x) (sort_key f (xs @ ys)) = filter (\<lambda>x. f k = f x) (sort_key f xs @ ys)"
    by (simp add: eq_commute [of "f k"])
qed

lemma filter_concat_newNodes:
  "filter (\<lambda>node. workerId node \<noteq> w) (concat (map (\<lambda>w. newNodes w vn) ws))
     = concat (map (\<lambda>w. newNodes w vn) (removeAll w ws))"
proof (induction ws)
  case Nil
  show ?case by simp
next
  case (Cons a ws)
  have "filter (\<lambda>node. workerId node \<noteq> w) (newNodes a vn) = (if a = w then [] else newNodes a vn)"
    by (auto simp: newNodes_def filter_empty_conv)
  with Cons show ?case by simp
qed

lemma canonical_ring_snoc:
  "sort_key hash (canonical_ring ws vn @ newNodes w vn) = canonical_ring (ws @ [w]) vn"
  by (simp add: canonical_ring_def sort_key_sort_key_append)

lemma canonical_ring_removeAll:
  "filter (\<lambda>node. workerId node \<noteq> w) (canonical_ring ws vn) = canonical_ring (removeAll w ws) vn"
  by (simp add: canonical_ring_def filter_sort filter_concat_newNodes)

lemma workerId_canonical_ring: "node \<in> set (canonical_ring ws vn) \<Longrightarrow> workerId node \<in> set ws"
  by (auto simp: canonical_ring_def dest: workerId_newNodes)

lemma router_wf_new: "router_wf (new_StickyRouter vn)"
  by (simp add: router_wf_def new_StickyRouter_def canonical_ring_def)

lemma router_wf_addWorker: "router_wf r \<Longrightarrow> router_wf (addWorker w r)"
  unfolding router_wf_def addWorker_def invalidateAffectedRoutes_def
  by (auto simp: canonical_ring_snoc)

lemma router_wf_removeWorker: "router_wf r \<Longrightarrow> router_wf (removeWorker w r)"
  unfolding router_wf_def removeWorker_def
  by (auto simp: canonical_ring_removeAll distinct_map_filter distinct_removeAll)

lemma router_wf_update:
  "router_wf r \<Longrightarrow> w \<in> set (workers r) \<Longrightarrow>
   router_wf (r\<lparr>routingCache := AList.update u w (routingCache r)\<rparr>)"
  unfolding router_wf_def by (auto simp: AList.distinct_update dest: in_set_AList_update)

lemma router_wf_route: "router_wf r \<Longrightarrow> route u r = Inr (d, r') \<Longrightarrow> router_wf r'"
  unfolding route_def Let_def
  by (auto split: if_splits option.splits sum.splits
        dest!: findNode_Inr_mem intro!: router_wf_update)
     (auto simp add: router_wf_def dest: workerId_canonical_ring)

lemma router_wf_forceAssign: "router_wf r \<Longrightarrow> forceAssign u w r = Inr r' \<Longrightarrow> router_wf r'"
  unfolding forceAssign_def by (auto split: if_splits intro: router_wf_update)

lemma router_wf_clearAssignment: "router_wf r \<Longrightarrow> router_wf (clearAssignment u r)"
  unfolding router_wf_def clearAssignment_def
  using set_AList_delete [of u "routingCache r"] by (auto simp: AList.distinct_delete)

lemma router_wf_clearCache: "router_wf r \<Longrightarrow> router_wf (clearCache r)"
  unfolding router_wf_def clearCache_def by auto

lemma router_wf_foldl_addWorker:
  "router_wf r \<Longrightarrow> router_wf (foldl (\<lambda>router w. addWorker w router) r ws)"
  by (induction ws arbitrary: r) (simp_all add: router_wf_addWorker)

lemma router_wf_import_assignment: "router_wf r \<Longrightarrow> router_wf (import_assignment r a)"
  unfolding import_assignment_def by (auto split: prod.splits intro: router_wf_update)

lemma router_wf_foldl_import:
  "router_wf r \<Longrightarrow> router_wf (foldl import_assignment r as)"
  by (induction as arbitrary: r) (simp_all add: router_wf_import_assignment)

lemma router_wf_fromState: "router_wf (fromState st)"
  unfolding fromState_def
  by (intro router_wf_foldl_import router_wf_foldl_addWorker router_wf_new)

lemma reachable_router_wf: "reachable r \<Longrightarrow> router_wf r"
  by (induction rule: reachable.induct)
     (auto intro: router_wf_new router_wf_addWorker router_wf_removeWorker router_wf_route
        router_wf_forceAssign router_wf_clearAssignment router_wf_clearCache router_wf_fromState)

lemma reachable_router_inv: "reachable r \<Longrightarrow> router_inv r"
  by (induction rule: reachable.induct)
     (auto intro: router_inv_new router_inv_addWorker router_inv_removeWorker router_inv_route
        router_inv_forceAssign router_inv_clearAssignment router_inv_clearCache router_inv_fromState)

lemma foldl_addWorker_distinct:
  "ring r = canonical_ring (workers r) (virtualNodes r) \<Longrightarrow> distinct (workers r @ ws) \<Longrightarrow>
   foldl (\<lambda>router w. addWorker w router) r ws
     = r\<lparr>workers := workers r @ ws, ring := canonical_ring (workers r @ ws) (virtualNodes r)\<rparr>"
proof (induction ws arbitrary: r)
  case Nil
  then show ?case by simp
next
  case (Cons w ws)
  let ?r = "addWorker w r"
  from Cons.prems have step: "?r = r\<lparr>workers := workers r @ [w],
      ring := canonical_ring (workers r @ [w]) (virtualNodes r)\<rparr>"
    by (simp add: addWorker_def invalidateAffectedRoutes_def canonical_ring_snoc)
  then have "ring ?r = canonical_ring (workers ?r) (virtualNodes ?r)"
    and "distinct (workers ?r @ ws)"
    using Cons.prems by simp_all
  from Cons.IH [OF this] step show ?case by simp
qed

lemma AList_update_fresh: "k \<notin> fst ` set al \<Longrightarrow> AList.update k v al = al @ [(k, v)]"
  by (induction al) auto

lemma foldl_import_distinct:
  "distinct (map fst (routingCache r @ as)) \<Longrightarrow> \<forall>(userId, w) \<in> set as. w \<in> set (workers r) \<Longrightarrow>
   foldl import_assignment r as = r\<lparr>routingCache := routingCache r @ as\<rparr>"
proof (induction as arbitrary: r)
  case Nil
  then show ?case by simp
next
  case (Cons a as)
  obtain u w where a: "a = (u, w)" by (cases a)
  let ?r = "import_assignment r a"
  from Cons.prems a have step: "?r = r\<lparr>routingCache := routingCache r @ [a]\<rparr>"
    by (simp add: import_assignment_def AList_update_fresh)
  then have "distinct (map fst (routingCache ?r @ as))"
    and "\<forall>(userId, w) \<in> set as. w \<in> set (workers ?r)"
    using Cons.prems by simp_all
  from Cons.IH [OF this] step show ?case by simp
qed

lemma fromState_exportState: "router_wf r \<Longrightarrow> fromState (exportState r) = r"
proof -
  assume wf: "router_wf r"
  let ?n = "new_StickyRouter (virtualNodes r)"
  have "foldl (\<lambda>router w. addWorker w router) ?n (workers r)
          = ?n\<lparr>workers := workers r, ring := canonical_ring (workers r) (virtualNodes r)\<rparr>"
    using wf foldl_addWorker_distinct [of ?n "workers r"]
    by (simp add: new_StickyRouter_def canonical_ring_def router_wf_def)
  moreover have "foldl import_assignment
       (?n\<lparr>workers := workers r, ring := canonical_ring (workers r) (virtualNodes r)\<rparr>)
       (routingCache r)
     = ?n\<lparr>workers := workers r, ring := canonical_ring (workers r) (virtualNodes r),
          routingCache := routingCache r\<rparr>"
    using wf foldl_import_distinct [of "?n\<lparr>workers := workers r,
        ring := canonical_ring (workers r) (virtualNodes r)\<rparr>" "routingCache r"]
    by (simp add: new_StickyRouter_def router_wf_def)
  ultimately show ?thesis
    using wf by (simp add: fromState_def exportState_def new_StickyRouter_def router_wf_def)
qed

lemma set_workers_foldl_addWorker:
  "set (workers (foldl (\<lambda>router w. addWorker w router) r ws)) = set (workers r) \<union> set ws"
  by (induction ws arbitrary: r) (auto simp: addWorker_def invalidateAffectedRoutes_def)

lemma workers_import_assignment: "workers (import_assignment r a) = workers r"
  by (auto simp: import_assignment_def split: prod.splits)

lemma workers_foldl_import: "workers (foldl import_assignment r as) = workers r"
  by (induction as arbitrary: r) (simp_all add: workers_import_assignment)

lemma set_workers_fromState: "set (workers (fromState st)) = set (st_workers st)"
  by (simp add: fromState_def workers_foldl_import set_workers_foldl_addWorker new_StickyRouter_def)

lemma cache_foldl_addWorker:
  "routingCache (foldl (\<lambda>router w. addWorker w router) r ws) = routingCache r"
  by (induction ws arbitrary: r) (auto simp: addWorker_def invalidateAffectedRoutes_def)

lemma cache_foldl_import_subset:
  "set (routingCache (foldl import_assignment r as)) \<subseteq> set (routingCache r) \<union> set as"
proof (induction as arbitrary: r)
  case Nil
  show ?case by simp
next
  case (Cons a as)
  have "set (routingCache (import_assignment r a)) \<subseteq> set (routingCache r) \<union> {a}"
    by (auto simp: import_assignment_def split: prod.splits if_splits dest: in_set_AList_update)
  with Cons [of "import_assignment r a"] show ?case by auto
qed

lemma fromState_drops_unknown:
  "(userId, w) \<in> set (routingCache (fromState st)) \<Longrightarrow>
     w \<in> set (st_workers st) \<and> (userId, w) \<in> set (st_assignments st)"
proof -
  assume a: "(userId, w) \<in> set (routingCache (fromState st))"
  have "router_inv (fromState st)" by (rule router_inv_fromState)
  with a have "w \<in> set (workers (fromState st))" by (auto simp: router_inv_def)
  moreover have "set (routingCache (fromState st)) \<subseteq> set (st_assignments st)"
    using cache_foldl_import_subset [of "foldl (\<lambda>router w. addWorker w router)
      (new_StickyRouter (st_virtualNodes st)) (st_workers st)" "st_assignments st"]
    by (simp add: fromState_def cache_foldl_addWorker new_StickyRouter_def)
  ultimately show ?thesis using a by (auto simp: set_workers_fromState)
qed

section \<open>The contract of route\<close>


lemma route_cached:
  assumes "ring r \<noteq> []" "map_of (routingCache r) u = Some w" "w \<noteq> []" "w \<in> set (workers r)"
  shows "route u r = Inr (\<lparr>rd_workerId = w, rd_userId = u, rd_hashValue = fnv1aHash u,
                            rd_isNewAssignment = False\<rparr>, r)"
  using assms by (simp add: route_def cache_hit_def)


lemma routingCache_addWorker: "routingCache (addWorker w r) = routingCache r"
  by (simp add: addWorker_def invalidateAffectedRoutes_def)

lemma addWorker_idempotent: "addWorker w (addWorker w r) = addWorker w r"
  by (simp add: addWorker_def invalidateAffectedRoutes_def)

lemma workers_addWorker: "set (workers (addWorker w r)) = insert w (set (workers r))"
  by (auto simp: addWorker_def invalidateAffectedRoutes_def)

lemma sort_key_eq_Nil_iff: "sort_key f xs = [] \<longleftrightarrow> xs = []"
  using length_sort [of f xs] by (metis length_0_conv)

lemma ring_addWorker_nonempty: "ring r \<noteq> [] \<Longrightarrow> ring (addWorker w r) \<noteq> []"
  by (simp add: addWorker_def invalidateAffectedRoutes_def sort_key_eq_Nil_iff)

lemma route_sticky_after_addWorker:
  assumes "ring r \<noteq> []" "map_of (routingCache r) u = Some w" "w \<noteq> []" "w \<in> set (workers r)"
  shows "route u (addWorker w' r)
           = Inr (\<lparr>rd_workerId = w, rd_userId = u, rd_hashValue = fnv1aHash u,
                    rd_isNewAssignment = False\<rparr>, addWorker w' r)"
  using assms
  by (intro route_cached) (simp_all add: routingCache_addWorker workers_addWorker ring_addWorker_nonempty)




lemma map_of_filter_snd:
  "map_of al k = Some v \<Longrightarrow> P (k, v) \<Longrightarrow> map_of (filter P al) k = Some v"
  by (induction al) (auto split: if_splits)

lemma virtualNodes_addWorker: "virtualNodes (addWorker w r) = virtualNodes r"
  by (simp add: addWorker_def invalidateAffectedRoutes_def)

lemma cached_on_registered: "cached_on u w r \<Longrightarrow> w \<in> set (workers r)"
  by (auto simp: cached_on_def router_inv_def dest!: map_of_SomeD)

lemma cached_on_ring: "cached_on u w r \<Longrightarrow> ring r \<noteq> []"
proof
  assume c: "cached_on u w r" and e: "ring r = []"
  from c have "w \<in> set (workers r)" by (rule cached_on_registered)
  with c have "length (filter (\<lambda>node. workerId node = w) (ring r)) = virtualNodes r"
    by (simp add: cached_on_def router_inv_def)
  with e c show False by (simp add: cached_on_def)
qed

lemma cached_on_route:
  assumes "cached_on u w r"
  shows "route u r = Inr (\<lparr>rd_workerId = w, rd_userId = u, rd_hashValue = fnv1aHash u,
                            rd_isNewAssignment = False\<rparr>, r)"
  using assms cached_on_ring [OF assms] cached_on_registered [OF assms]
  by (intro route_cached) (simp_all add: cached_on_def)

lemma cached_on_addWorker: "cached_on u w r \<Longrightarrow> cached_on u w (addWorker w' r)"
  by (simp add: cached_on_def router_inv_addWorker routingCache_addWorker virtualNodes_addWorker)

lemma cached_on_removeWorker:
  assumes "cached_on u w r" "w' \<noteq> w"
  shows "cached_on u w (removeWorker w' r)"
proof -
  from assms(1) have "router_inv (removeWorker w' r)"
    by (simp add: cached_on_def router_inv_removeWorker)
  moreover have "virtualNodes (removeWorker w' r) = virtualNodes r"
    by (simp add: removeWorker_def)
  moreover have "map_of (routingCache (removeWorker w' r)) u = Some w"
    using assms by (auto simp: removeWorker_def cached_on_def intro: map_of_filter_snd)
  ultimately show ?thesis using assms(1) by (simp add: cached_on_def)
qed

lemma cached_on_route_other:
  assumes "cached_on u w r" "route u' r = Inr (d, r')"
  shows "cached_on u w r'"
proof (cases "u' = u")
  case True
  with assms cached_on_route [OF assms(1)] show ?thesis by simp
next
  case False
  from assms have "router_inv r'" by (auto simp: cached_on_def intro: router_inv_route)
  moreover from assms(2) have "virtualNodes r' = virtualNodes r"
    by (auto simp: route_def Let_def split: if_splits option.splits sum.splits)
  moreover from assms(2) False have "map_of (routingCache r') u = map_of (routingCache r) u"
    by (auto simp: route_def Let_def AList.update_conv' split: if_splits option.splits sum.splits)
  ultimately show ?thesis using assms(1) by (simp add: cached_on_def)
qed

lemma cached_on_forceAssign:
  assumes "cached_on u w r" "u' \<noteq> u" "forceAssign u' w' r = Inr r'"
  shows "cached_on u w r'"
proof -
  from assms have "router_inv r'" by (auto simp: cached_on_def intro: router_inv_forceAssign)
  moreover from assms(3) have "virtualNodes r' = virtualNodes r"
    by (auto simp: forceAssign_def split: if_splits)
  moreover from assms(2,3) have "map_of (routingCache r') u = map_of (routingCache r) u"
    by (auto simp: forceAssign_def AList.update_conv' split: if_splits)
  ultimately show ?thesis using assms(1) by (simp add: cached_on_def)
qed

lemma cached_on_clearAssignment:
  assumes "cached_on u w r" "u' \<noteq> u"
  shows "cached_on u w (clearAssignment u' r)"
proof -
  from assms have "router_inv (clearAssignment u' r)"
    by (auto simp: cached_on_def intro: router_inv_clearAssignment)
  moreover have "map_of (routingCache (clearAssignment u' r)) u = map_of (routingCache r) u"
    using assms(2) by (simp add: clearAssignment_def AList.delete_conv')
  ultimately show ?thesis using assms(1) by (simp add: cached_on_def clearAssignment_def)
qed

lemma keeps_assignment_cached_on:
  "keeps_assignment u w r r' \<Longrightarrow> cached_on u w r \<Longrightarrow> cached_on u w r'"
  by (induction rule: keeps_assignment.induct)
    (auto intro: cached_on_addWorker cached_on_removeWorker cached_on_route_other
       cached_on_forceAssign cached_on_clearAssignment)

lemmas router_eval =
  createStickyRouter_def new_StickyRouter_def addWorker_def invalidateAffectedRoutes_def
  removeWorker_def route_def cache_hit_def truthy_def findNode_def peek_def forceAssign_def
  clearAssignment_def clearCache_def exportState_def fromState_def import_assignment_def
  newNodes_def virtualKey_def numToString.simps js_def fnv1aHash_def fnv_step_def
  bsearch.simps Let_def


section \<open>Claims about the sticky router\<close>

text \<open>
  Claim C4: the router consistency invariant (every cached user id maps to a currently
  registered worker id, every registered worker has exactly \<open>virtualNodes\<close> ring nodes carrying
  its id, and no ring node references a worker outside the set) holds for a fresh router and for
  every router that \<open>fromState\<close> returns, and is preserved by \<open>addWorker\<close>,
  \<open>removeWorker\<close>, \<open>route\<close>, \<open>forceAssign\<close>, \<open>clearAssignment\<close> and \<open>clearCache\<close>.
\<close>

theorem router_consistency_invariant:
  assumes "router_inv r"
  shows "router_inv (addWorker w r) \<and> router_inv (removeWorker w r)
    \<and> (\<forall>d r'. route userId r = Inr (d, r') \<longrightarrow> router_inv r')
    \<and> (\<forall>r'. forceAssign userId w r = Inr r' \<longrightarrow> router_inv r')
    \<and> router_inv (clearAssignment userId r) \<and> router_inv (clearCache r)
    \<and> router_inv (fromState st) \<and> router_inv (new_StickyRouter vn)"
  using assms
  by (auto intro: router_inv_addWorker router_inv_removeWorker router_inv_route
      router_inv_forceAssign router_inv_clearAssignment router_inv_clearCache
      router_inv_fromState router_inv_new)

theorem router_consistency_invariant_witness:
  "router_inv (createStickyRouter [js ''a'', js ''b''] (Some 2))
   \<and> router_inv (addWorker (js ''c'') (createStickyRouter [js ''a'', js ''b''] (Some 2)))
   \<and> router_inv (removeWorker (js ''a'') (createStickyRouter [js ''a'', js ''b''] (Some 2)))
   \<and> (\<exists>d r'. route (js ''u'') (createStickyRouter [js ''a'', js ''b''] (Some 2)) = Inr (d, r')
          \<and> rd_workerId d = js ''b'' \<and> router_inv r')
   \<and> (\<exists>r'. forceAssign (js ''u'') (js ''a'') (createStickyRouter [js ''a'', js ''b''] (Some 2)) = Inr r'
          \<and> router_inv r')
   \<and> router_inv (clearAssignment (js ''u'') (createStickyRouter [js ''a'', js ''b''] (Some 2)))
   \<and> router_inv (clearCache (createStickyRouter [js ''a'', js ''b''] (Some 2)))"
proof -
  let ?r = "createStickyRouter [js ''a'', js ''b''] (Some 2)"
  have inv: "router_inv ?r"
    by (simp add: router_eval router_inv_def upt_rec)
  have "\<exists>d r'. route (js ''u'') ?r = Inr (d, r') \<and> rd_workerId d = js ''b''"
    by (simp add: router_eval upt_rec)
  moreover have "\<exists>r'. forceAssign (js ''u'') (js ''a'') ?r = Inr r'"
    by (simp add: router_eval upt_rec)
  ultimately show ?thesis
    using inv router_consistency_invariant [OF inv, of "js ''c''" "js ''u''"]
      router_consistency_invariant [OF inv, of "js ''a''" "js ''u''"]
    by blast
qed

text \<open>
  Claim C5: for every router \<open>r\<close> that the interface can build, \<open>fromState (exportState r)\<close>
  is \<open>r\<close> again: the same worker set, the same assignment cache, the same \<open>virtualNodes\<close>
  and the same \<open>route\<close> and \<open>peek\<close> outputs; and for any state, an assignment whose worker is
  absent from the state's \<open>workers\<close> list is not in the imported cache (the imported entries
  are entries of the state whose worker is listed).
\<close>

theorem export_import_round_trip:
  assumes "reachable r"
  shows "fromState (exportState r) = r
    \<and> set (workers (fromState (exportState r))) = set (workers r)
    \<and> routingCache (fromState (exportState r)) = routingCache r
    \<and> virtualNodes (fromState (exportState r)) = virtualNodes r
    \<and> (\<forall>userId. route userId (fromState (exportState r)) = route userId r)
    \<and> (\<forall>userId. peek userId (fromState (exportState r)) = peek userId r)
    \<and> (\<forall>userId w. (userId, w) \<in> set (st_assignments st) \<and> w \<notin> set (st_workers st)
          \<longrightarrow> (userId, w) \<notin> set (routingCache (fromState st)))
    \<and> (\<forall>userId w. (userId, w) \<in> set (routingCache (fromState st))
          \<longrightarrow> w \<in> set (st_workers st) \<and> (userId, w) \<in> set (st_assignments st))"
proof -
  from assms have "router_wf r" by (rule reachable_router_wf)
  then have "fromState (exportState r) = r" by (rule fromState_exportState)
  then show ?thesis using fromState_drops_unknown [of _ _ st] by auto
qed

theorem export_import_round_trip_witness:
  "reachable (fromState \<lparr>st_workers = [js ''a'', js ''b''],
       st_assignments = [(js ''u'', js ''b''), (js ''v'', js ''gone'')], st_virtualNodes = 2\<rparr>)
   \<and> routingCache (fromState \<lparr>st_workers = [js ''a'', js ''b''],
       st_assignments = [(js ''u'', js ''b''), (js ''v'', js ''gone'')], st_virtualNodes = 2\<rparr>)
       = [(js ''u'', js ''b'')]
   \<and> fromState (exportState (fromState \<lparr>st_workers = [js ''a'', js ''b''],
       st_assignments = [(js ''u'', js ''b''), (js ''v'', js ''gone'')], st_virtualNodes = 2\<rparr>))
       = fromState \<lparr>st_workers = [js ''a'', js ''b''],
       st_assignments = [(js ''u'', js ''b''), (js ''v'', js ''gone'')], st_virtualNodes = 2\<rparr>"
proof -
  let ?st = "\<lparr>st_workers = [js ''a'', js ''b''],
       st_assignments = [(js ''u'', js ''b''), (js ''v'', js ''gone'')], st_virtualNodes = 2\<rparr>"
  have reach: "reachable (fromState ?st)" by (rule reach_fromState)
  have "routingCache (fromState ?st) = [(js ''u'', js ''b'')]"
    by (simp add: router_eval upt_rec)
  with reach export_import_round_trip [OF reach] show ?thesis by blast
qed

text \<open>
  Claim C1 (stickiness across pool growth).  Let the user be cached to a worker in a consistent
  router with at least one virtual node per worker, the worker id not being the empty string
  (the supervisor names its workers \<open>worker-0\<close>, \<open>worker-1\<close>, ...).  Then
  \<open>addWorker\<close> is idempotent and leaves the cache as it is; \<open>route\<close> returns the cached
  worker and changes nothing, before and after a worker is added; and so it does after any
  sequence of operations that neither removes that worker nor evicts or reassigns the user
  (\<open>keeps_assignment\<close>), the worker still being registered then.
\<close>

theorem stickiness_across_pool_growth:
  assumes "router_inv r" and "0 < virtualNodes r"
    and "map_of (routingCache r) userId = Some w" and "w \<noteq> []"
  shows "addWorker w' (addWorker w' r) = addWorker w' r
    \<and> routingCache (addWorker w' r) = routingCache r
    \<and> route userId r = Inr (\<lparr>rd_workerId = w, rd_userId = userId, rd_hashValue = fnv1aHash userId,
                               rd_isNewAssignment = False\<rparr>, r)
    \<and> route userId (addWorker w' r)
        = Inr (\<lparr>rd_workerId = w, rd_userId = userId, rd_hashValue = fnv1aHash userId,
                 rd_isNewAssignment = False\<rparr>, addWorker w' r)
    \<and> (\<forall>r'. keeps_assignment userId w r r' \<longrightarrow>
          w \<in> set (workers r')
          \<and> route userId r' = Inr (\<lparr>rd_workerId = w, rd_userId = userId,
                 rd_hashValue = fnv1aHash userId, rd_isNewAssignment = False\<rparr>, r'))"
proof -
  from assms have c: "cached_on userId w r" by (simp add: cached_on_def)
  have "w \<in> set (workers r') \<and> route userId r' = Inr (\<lparr>rd_workerId = w, rd_userId = userId,
                 rd_hashValue = fnv1aHash userId, rd_isNewAssignment = False\<rparr>, r')"
    if "keeps_assignment userId w r r'" for r'
    using keeps_assignment_cached_on [OF that c] cached_on_route cached_on_registered by blast
  then show ?thesis
    using cached_on_route [OF c] cached_on_route [OF cached_on_addWorker [OF c, of w']]
    by (simp add: addWorker_idempotent routingCache_addWorker)
qed

theorem stickiness_across_pool_growth_witness:
  "\<exists>d r1. route (js ''u'') (createStickyRouter [js ''a'', js ''b''] (Some 2)) = Inr (d, r1)
     \<and> rd_workerId d = js ''b'' \<and> rd_isNewAssignment d
     \<and> router_inv r1 \<and> 0 < virtualNodes r1
     \<and> map_of (routingCache r1) (js ''u'') = Some (js ''b'') \<and> js ''b'' \<noteq> []
     \<and> routingCache (addWorker (js ''c'') r1) = [(js ''u'', js ''b'')]
     \<and> js ''c'' \<in> set (workers (addWorker (js ''c'') r1))
     \<and> route (js ''u'') (addWorker (js ''c'') r1)
          = Inr (\<lparr>rd_workerId = js ''b'', rd_userId = js ''u'', rd_hashValue = fnv1aHash (js ''u''),
                   rd_isNewAssignment = False\<rparr>, addWorker (js ''c'') r1)
     \<and> route (js ''u'') (removeWorker (js ''a'') (addWorker (js ''c'') r1))
          = Inr (\<lparr>rd_workerId = js ''b'', rd_userId = js ''u'', rd_hashValue = fnv1aHash (js ''u''),
                   rd_isNewAssignment = False\<rparr>, removeWorker (js ''a'') (addWorker (js ''c'') r1))"
proof -
  let ?r0 = "createStickyRouter [js ''a'', js ''b''] (Some 2)"
  have inv0: "router_inv ?r0" by (simp add: router_eval router_inv_def upt_rec)
  obtain d r1 where step: "route (js ''u'') ?r0 = Inr (d, r1)" "rd_workerId d = js ''b''"
      "rd_isNewAssignment d" "routingCache r1 = [(js ''u'', js ''b'')]" "virtualNodes r1 = 2"
    by (simp add: router_eval upt_rec)
  have inv1: "router_inv r1" by (rule router_inv_route [OF inv0 step(1)])
  have hyps: "0 < virtualNodes r1" "map_of (routingCache r1) (js ''u'') = Some (js ''b'')"
      "js ''b'' \<noteq> []"
    by (simp_all add: step js_def)
  have later: "keeps_assignment (js ''u'') (js ''b'') r1
      (removeWorker (js ''a'') (addWorker (js ''c'') r1))"
    by (intro keeps_removeWorker keeps_addWorker keeps_now) (simp add: js_def)
  show ?thesis
    using stickiness_across_pool_growth [OF inv1 hyps, of "js ''c''"] step inv1 hyps later
    by (intro exI [of _ d] exI [of _ r1]) (simp add: workers_addWorker)
qed



section \<open>Claims about the restart policy\<close>

lemmas pool_eval =
  handleWorkerExit_def spawnWorker_def restartTimerFired_def
  crash_and_restart_def crashes_def DEFAULT_WORKER_POOL_CONFIG_def started_pool_def Let_def

text \<open>
  One run of the exit handler on a slot record, the pool not stopping: the entries of
  \<open>restartTimes\<close> that are \<open>restartWindow\<close> or more old are dropped; if at least
  \<open>maxRestartAttempts\<close> are left the slot is marked \<open>Crashed\<close> and no restart is armed,
  otherwise \<open>now\<close> is appended, \<open>restartCount\<close> incremented and the restart armed.
\<close>

lemma handleWorkerExit_step:
  assumes "pool_workers pool wid = Some worker" and "\<not> stopping pool"
  shows "case handleWorkerExit wid now pool of (pool', effects) \<Rightarrow>
     (case pool_workers pool' wid of
        None \<Rightarrow> False
      | Some worker' \<Rightarrow>
          wi_workerId worker' = wi_workerId worker \<and> process worker' = None
          \<and> (let kept = filter (\<lambda>t. now - t < restartWindow (config pool)) (restartTimes worker)
             in if maxRestartAttempts (config pool) \<le> int (length kept)
                then state worker' = Crashed \<and> restartTimes worker' = kept
                  \<and> restartCount worker' = restartCount worker
                  \<and> EmitWorkerCrash wid \<in> set effects
                  \<and> [a. SetRestartTimer w d a \<leftarrow> effects] = []
                else state worker' = Stopped \<and> restartTimes worker' = kept @ [now]
                  \<and> restartCount worker' = restartCount worker + 1
                  \<and> SetRestartTimer wid (restartDelay (config pool)) (restartCount worker + 1)
                       \<in> set effects
                  \<and> EmitWorkerCrash wid \<notin> set effects))"
  using assms by (auto simp: handleWorkerExit_def Let_def)

text \<open>
  Every re-spawn stores a new record with empty \<open>restartTimes\<close>, so the record that an exit
  handler reads is always the one of the spawn that started the exiting child: the window is
  empty, and for a positive \<open>maxRestartAttempts\<close> the handler arms the next restart, whatever
  the number and the times of the crashes before.
\<close>

lemma spawnWorker_resets_restart_window:
  "pool_workers (spawnWorker wid pid pool) wid
     = Some \<lparr>wi_workerId = wid, process = Some pid, state = Starting, restartCount = 0,
             restartTimes = [], pendingRequests = []\<rparr>
   \<and> config (spawnWorker wid pid pool) = config pool
   \<and> stopping (spawnWorker wid pid pool) = stopping pool"
  by (simp add: spawnWorker_def)

lemma exit_after_spawn_restarts:
  assumes "\<not> stopping pool" and "0 < maxRestartAttempts (config pool)"
    and "pool_workers pool wid = Some worker" and "restartTimes worker = []"
    and "pendingRequests worker = []"
  shows "handleWorkerExit wid now pool
     = (pool\<lparr>pool_workers := (pool_workers pool)(wid \<mapsto>
          worker\<lparr>pendingRequests := [], process := None, state := Stopped,
                 restartCount := restartCount worker + 1, restartTimes := [now]\<rparr>)\<rparr>,
        [SetRestartTimer wid (restartDelay (config pool)) (restartCount worker + 1)])"
  using assms by (simp add: handleWorkerExit_def Let_def)

lemma crash_and_restart_fresh:
  assumes "\<not> stopping pool" and "0 < maxRestartAttempts (config pool)"
    and "pool_workers pool wid = Some worker" and "restartTimes worker = []"
    and "pendingRequests worker = []"
  shows "crash_and_restart wid pool (now, pid)
     = spawnWorker wid pid (fst (handleWorkerExit wid now pool))"
  using assms by (simp add: crash_and_restart_def restartTimerFired_def handleWorkerExit_def Let_def)

lemma fresh_slot_crash_and_restart:
  assumes "fresh_slot wid pool"
  shows "fresh_slot wid (crash_and_restart wid pool ev)"
proof -
  obtain now pid where ev: "ev = (now, pid)" by (cases ev)
  from assms obtain pid0 where slot: "pool_workers pool wid
      = Some \<lparr>wi_workerId = wid, process = Some pid0, state = Starting, restartCount = 0,
              restartTimes = [], pendingRequests = []\<rparr>"
    and live: "\<not> stopping pool" "0 < maxRestartAttempts (config pool)"
    by (auto simp: fresh_slot_def)
  have "crash_and_restart wid pool (now, pid)
      = spawnWorker wid pid (fst (handleWorkerExit wid now pool))"
    by (rule crash_and_restart_fresh [OF live slot]) simp_all
  moreover have "\<not> stopping (fst (handleWorkerExit wid now pool))"
      "config (fst (handleWorkerExit wid now pool)) = config pool"
    using live slot by (simp_all add: handleWorkerExit_def Let_def)
  ultimately show ?thesis
    using live by (auto simp: ev fresh_slot_def spawnWorker_def)
qed

lemma fresh_slot_foldl:
  "fresh_slot wid pool \<Longrightarrow> fresh_slot wid (foldl (crash_and_restart wid) pool evs)"
  by (induction evs arbitrary: pool) (simp_all add: fresh_slot_crash_and_restart)

lemma restart_limit_is_never_reached:
  assumes "\<not> stopping pool" and "0 < maxRestartAttempts (config pool)"
  shows "case handleWorkerExit wid now (crashes wid exit_times (spawnWorker wid pid pool)) of
     (pool', effects) \<Rightarrow>
       map_option state (pool_workers pool' wid) = Some Stopped
       \<and> map_option restartTimes (pool_workers pool' wid) = Some [now]
       \<and> effects = [SetRestartTimer wid (restartDelay (config pool)) 1]"
proof -
  let ?p = "crashes wid exit_times (spawnWorker wid pid pool)"
  from assms have "fresh_slot wid (spawnWorker wid pid pool)"
    by (auto simp: fresh_slot_def spawnWorker_def)
  then have f: "fresh_slot wid ?p" unfolding crashes_def by (rule fresh_slot_foldl)
  have "config (foldl (crash_and_restart wid) p evs) = config p" if "fresh_slot wid p" for p evs
    using that
  proof (induction evs arbitrary: p)
    case Nil
    then show ?case by simp
  next
    case (Cons ev evs)
    obtain t i where ev: "ev = (t, i)" by (cases ev)
    from Cons.prems have "config (crash_and_restart wid p ev) = config p"
      by (auto simp: ev fresh_slot_def crash_and_restart_def restartTimerFired_def
          handleWorkerExit_def spawnWorker_def Let_def)
    with Cons.IH [OF fresh_slot_crash_and_restart [OF Cons.prems, of ev]] show ?case by simp
  qed
  from this [of "spawnWorker wid pid pool"] assms have c: "config ?p = config pool"
    by (simp add: crashes_def fresh_slot_def spawnWorker_def)
  from f c show ?thesis
    by (auto simp: fresh_slot_def handleWorkerExit_def Let_def)
qed

text \<open>
  Claim C9 (restart policy).  The claim has a worker that crashed five times within 60 s latched
  \<open>Crashed\<close> on the sixth exit.  In the code the limit is never reached: \<open>worker-0\<close> of a
  started pool with the default configuration (\<open>maxRestartAttempts = 5\<close>,
  \<open>restartWindow = 60000\<close>, \<open>restartDelay = 1000\<close>) crashes at 0, 2000, 4000, 6000 and
  8000 ms, each exit followed by its timed re-spawn; the record then holds no restart time, and
  the sixth exit at 10000 ms leaves the slot \<open>Stopped\<close> with the next restart armed, as
  attempt 1; after that re-spawn the slot is \<open>Starting\<close> again.
\<close>

theorem sixth_crash_within_window_is_restarted:
  "(case handleWorkerExit (js ''worker-0'') 10000
           (crashes (js ''worker-0'') [0, 2000, 4000, 6000, 8000] started_pool) of
      (pool', effects) \<Rightarrow>
        map_option state (pool_workers pool' (js ''worker-0'')) = Some Stopped
        \<and> map_option restartTimes (pool_workers pool' (js ''worker-0'')) = Some [10000]
        \<and> map_option restartCount (pool_workers pool' (js ''worker-0'')) = Some 1
        \<and> effects = [SetRestartTimer (js ''worker-0'') 1000 1])
   \<and> map_option state
        (pool_workers (crashes (js ''worker-0'') [0, 2000, 4000, 6000, 8000, 10000] started_pool)
           (js ''worker-0''))
      = Some Starting
   \<and> map_option restartTimes
        (pool_workers (crashes (js ''worker-0'') [0, 2000, 4000, 6000, 8000] started_pool)
           (js ''worker-0''))
      = Some []"
  by (simp add: pool_eval upt_rec)

section \<open>Properties of the path model\<close>

lemma split_slash_nonempty: "split_slash s \<noteq> []"
  by (induction s) (auto split: list.splits)

lemma split_slash_append: "split_slash (a @ 47 # b) = split_slash a @ split_slash b"
  by (induction a) (auto split: list.splits simp: split_slash_nonempty)

lemma split_slash_no_slash: "47 \<notin> set s \<Longrightarrow> split_slash s = [s]"
  by (induction s) auto

lemma slash_free_split: "seg \<in> set (split_slash s) \<Longrightarrow> 47 \<notin> set seg"
  by (induction s arbitrary: seg) (auto split: if_splits list.splits)

lemma split_join_slash:
  "segs \<noteq> [] \<Longrightarrow> \<forall>seg\<in>set segs. 47 \<notin> set seg \<Longrightarrow> split_slash (join_slash segs) = segs"
  by (induction segs rule: join_slash.induct) (simp_all add: split_slash_no_slash split_slash_append)

lemma join_slash_nonempty:
  "segs \<noteq> [] \<Longrightarrow> hd segs \<noteq> [] \<Longrightarrow> join_slash segs \<noteq> [] \<and> hd (join_slash segs) = hd (hd segs)"
  by (induction segs rule: join_slash.induct) simp_all

lemma norm_step_normal:
  "normal_stack a st \<Longrightarrow> 47 \<notin> set seg \<Longrightarrow> normal_stack a (norm_step a st seg)"
  by (cases st) (auto simp: norm_step_def)

lemma foldl_norm_normal:
  "normal_stack a st \<Longrightarrow> \<forall>seg\<in>set segs. 47 \<notin> set seg \<Longrightarrow>
   normal_stack a (foldl (norm_step a) st segs)"
  by (induction segs arbitrary: st) (simp_all add: norm_step_normal)

lemma norm_step_push: "normal_stack a (seg # st) \<Longrightarrow> norm_step a st seg = seg # st"
  by (cases st) (auto simp: norm_step_def)

lemma renormalize: "normal_stack a st \<Longrightarrow> foldl (norm_step a) [] (rev st) = st"
  by (induction st) (simp_all add: norm_step_push)

lemma normal_stack_slash_free: "normal_stack a st \<Longrightarrow> seg \<in> set st \<Longrightarrow> 47 \<notin> set seg \<and> seg \<noteq> []"
  by (induction st) auto

lemma normal_split: "normal_stack a (foldl (norm_step a) [] (split_slash p))"
  by (rule foldl_norm_normal) (auto dest: slash_free_split)

lemma norm_step_empty [simp]: "norm_step a st [] = st"
  by (simp add: norm_step_def)

lemma isAbsolute_Cons [simp]: "isAbsolute (c # cs) = (c = 47)"
  by (simp add: isAbsolute_def)

lemma isAbsolute_Nil [simp]: "isAbsolute [] = False"
  by (simp add: isAbsolute_def)

lemma isAbsolute_append: "x \<noteq> [] \<Longrightarrow> isAbsolute (x @ y) = isAbsolute x"
  by (cases x) simp_all

lemma split_slash_snoc_slash: "split_slash (p @ [47]) = split_slash p @ [[]]"
  using split_slash_append [of p "[]"] by simp

lemma normalize_normal_stack:
  fixes ab tr :: bool and st :: "jsstring list"
  assumes st: "normal_stack (\<not> ab) st" "st \<noteq> []"
  defines "r \<equiv> (if ab then [47] else []) @ join_slash (rev st) @ (if tr then [47] else [])"
  shows "isAbsolute r = ab" and "foldl (norm_step (\<not> ab)) [] (split_slash r) = st"
proof -
  let ?p = "join_slash (rev st)"
  from st have segs: "rev st \<noteq> []" "\<forall>seg\<in>set (rev st). 47 \<notin> set seg" "hd (rev st) \<noteq> []"
    using normal_stack_slash_free [OF st(1)] by (auto simp: hd_rev)
  from join_slash_nonempty [OF segs(1,3)] have p: "?p \<noteq> []" "hd ?p = hd (hd (rev st))" by simp_all
  from segs have "hd (hd (rev st)) \<noteq> 47"
    by (metis hd_in_set)
  with p have "\<not> isAbsolute ?p" by (cases ?p) simp_all
  with p show "isAbsolute r = ab" by (cases ?p) (simp_all add: r_def)
  have sp: "split_slash ?p = rev st" by (rule split_join_slash [OF segs(1,2)])
  have "split_slash r = (if ab then [[]] else []) @ rev st @ (if tr then [[]] else [])"
    by (simp add: r_def sp split_slash_snoc_slash)
  then show "foldl (norm_step (\<not> ab)) [] (split_slash r) = st"
    using renormalize [OF st(1)] by (cases ab; cases tr) simp_all
qed

lemma normalize_keeps_location:
  "path_segments (normalize p) = path_segments p \<and> isAbsolute (normalize p) = isAbsolute p"
proof (cases "p = []")
  case True
  then show ?thesis by (simp add: normalize_def path_segments_def js_def norm_step_def)
next
  case False
  let ?ab = "isAbsolute p"
  let ?st = "foldl (norm_step (\<not> ?ab)) [] (split_slash p)"
  have normal: "normal_stack (\<not> ?ab) ?st" by (rule normal_split)
  show ?thesis
  proof (cases "?st = []")
    case True
    then have "normalizeString p (\<not> ?ab) = []" by (simp add: normalizeString_def)
    with False True show ?thesis
      by (auto simp: normalize_def path_segments_def js_def norm_step_def Let_def)
  next
    case ne: False
    from normal ne have "hd (rev ?st) \<noteq> []"
      using normal_stack_slash_free [OF normal] by (auto simp: hd_rev)
    with ne have "join_slash (rev ?st) \<noteq> []" using join_slash_nonempty [of "rev ?st"] by simp
    then have eq: "normalize p = (if ?ab then [47] else []) @ join_slash (rev ?st)
        @ (if last p = 47 then [47] else [])"
      using False by (simp add: normalize_def normalizeString_def Let_def)
    from normalize_normal_stack [OF normal ne, of "last p = 47"] eq
    show ?thesis by (simp add: path_segments_def)
  qed
qed

lemma normalize_nonempty: "normalize p \<noteq> []"
  by (auto simp: normalize_def js_def Let_def)

lemma join_nonempty: "join args \<noteq> []"
  by (auto simp: join_def js_def normalize_nonempty split: list.splits)

lemma join_two:
  "x \<noteq> [] \<Longrightarrow> join [x, y] = (if y = [] then normalize x else normalize (x @ 47 # y))"
  by (simp add: join_def)

lemma path_segments_append:
  assumes "x \<noteq> []"
  shows "path_segments (x @ 47 # y)
           = rev (foldl (norm_step (\<not> isAbsolute x)) (rev (path_segments x)) (split_slash y))"
  using assms by (simp add: path_segments_def isAbsolute_append split_slash_append)

lemma join_location:
  assumes "x \<noteq> []"
  shows "isAbsolute (join [x, y]) = isAbsolute x"
    and "path_segments (join [x, y])
           = rev (foldl (norm_step (\<not> isAbsolute x)) (rev (path_segments x)) (split_slash y))"
proof -
  show "isAbsolute (join [x, y]) = isAbsolute x"
    using assms by (simp add: join_two normalize_keeps_location isAbsolute_append)
  show "path_segments (join [x, y])
           = rev (foldl (norm_step (\<not> isAbsolute x)) (rev (path_segments x)) (split_slash y))"
    using assms
    by (simp add: join_two normalize_keeps_location path_segments_append) 
qed

lemma join_plain_segment:
  assumes "x \<noteq> []" "47 \<notin> set y" "y \<noteq> []" "y \<noteq> [46]" "y \<noteq> [46, 46]"
  shows "path_segments (join [x, y]) = path_segments x @ [y]"
  using assms by (simp add: join_location split_slash_no_slash norm_step_def)

lemma replace_outside_slash_free:
  "\<not> allowed 47 \<Longrightarrow> 47 \<notin> set (replace_outside allowed s)"
  by (auto simp: replace_outside_def)

lemma id_char_47: "\<not> id_char 47" and name_char_47: "\<not> name_char 47"
  by (simp_all add: id_char_def name_char_def is_alnum_def)

lemma subdirectory_location:
  assumes "47 \<notin> set d" "d \<noteq> []" "d \<noteq> [46]" "d \<noteq> [46, 46]"
  shows "path_segments (join [join [baseDir, wid], d]) = path_segments (join [baseDir, wid]) @ [d]"
    and "isAbsolute (join [join [baseDir, wid], d]) = isAbsolute (join [baseDir, wid])"
  using assms join_nonempty [of "[baseDir, wid]"]
  by (simp_all add: join_plain_segment join_location)

lemma named_file_location:
  assumes d: "47 \<notin> set d" "d \<noteq> []" "d \<noteq> [46]" "d \<noteq> [46, 46]"
    and y: "47 \<notin> set y" "y \<noteq> []" "y \<noteq> [46]" "y \<noteq> [46, 46]"
  shows "path_segments (join [join [join [baseDir, wid], d], y])
           = path_segments (join [baseDir, wid]) @ [d, y]"
  using join_nonempty [of "[join [baseDir, wid], d]"]
  by (simp add: join_plain_segment y subdirectory_location(1) [OF d])

lemma replace_outside_allowed:
  "allowed 95 \<Longrightarrow> list_all allowed (replace_outside allowed s)"
  by (auto simp: replace_outside_def list_all_iff)

lemma replace_outside_nth:
  "i < length s \<Longrightarrow> replace_outside allowed s ! i = (if allowed (s ! i) then s ! i else 95)"
  by (simp add: replace_outside_def)


lemma is_under_append:
  assumes "isAbsolute path = isAbsolute dirPath" "path_segments path = path_segments dirPath @ rest"
    "rest \<noteq> []" "[46, 46] \<notin> set rest"
  shows "is_under dirPath path"
  using assms by (simp add: is_under_def)

lemma not_under_itself: "same_location path dirPath \<Longrightarrow> \<not> is_under dirPath path"
  by (simp add: is_under_def same_location_def)

lemma join_dot:
  assumes "x \<noteq> []" "y = [] \<or> y = [46]"
  shows "same_location (join [x, y]) x"
  using assms by (auto simp: same_location_def join_location split_slash_no_slash norm_step_def)

lemma join_dot_dot:
  assumes "x \<noteq> []" "path_segments x = r @ [d]" "d \<noteq> [46, 46]"
  shows "path_segments (join [x, [46, 46]]) = r" "isAbsolute (join [x, [46, 46]]) = isAbsolute x"
  using assms by (simp_all add: join_location split_slash_no_slash norm_step_def)

lemma replace_outside_eq_dots:
  "replace_outside name_char s = [] \<longleftrightarrow> s = []"
  "replace_outside name_char s = [46] \<longleftrightarrow> s = [46]"
  "replace_outside name_char s = [46, 46] \<longleftrightarrow> s = [46, 46]"
  by (auto simp: replace_outside_def name_char_def is_alnum_def split: if_splits)

lemma replace_outside_slash:
  "47 \<in> set s \<Longrightarrow> replace_outside name_char s \<noteq> [] \<and> replace_outside name_char s \<noteq> [46]
     \<and> replace_outside name_char s \<noteq> [46, 46]"
  by (auto simp: replace_outside_eq_dots)

text \<open>A file name joined to a subdirectory of the sandbox root.\<close>

lemma file_in_subdirectory:
  assumes d: "47 \<notin> set d" "d \<noteq> []" "d \<noteq> [46]" "d \<noteq> [46, 46]"
    and y: "47 \<notin> set y" "y \<noteq> []" "y \<noteq> [46]" "y \<noteq> [46, 46]"
  shows "path_segments (join [join [join [baseDir, wid], d], y])
           = path_segments (join [join [baseDir, wid], d]) @ [y]"
    and "is_under (join [join [baseDir, wid], d]) (join [join [join [baseDir, wid], d], y])"
    and "is_under (join [baseDir, wid]) (join [join [join [baseDir, wid], d], y])"
proof -
  let ?root = "join [baseDir, wid]" and ?sub = "join [join [baseDir, wid], d]"
  have sub: "?sub \<noteq> []" by (rule join_nonempty)
  have segs: "path_segments (join [?sub, y]) = path_segments ?root @ [d, y]"
    by (rule named_file_location [OF d y])
  have sub_segs: "path_segments ?sub = path_segments ?root @ [d]"
    by (rule subdirectory_location(1) [OF d])
  have ab: "isAbsolute (join [?sub, y]) = isAbsolute ?sub" "isAbsolute ?sub = isAbsolute ?root"
    using sub subdirectory_location(2) [OF d] by (simp_all add: join_location)
  show "path_segments (join [?sub, y]) = path_segments ?sub @ [y]"
    by (simp add: segs sub_segs)
  show "is_under ?sub (join [?sub, y])"
    by (rule is_under_append [of _ _ "[y]"]) (simp_all add: ab segs sub_segs y(4) [symmetric])
  show "is_under ?root (join [?sub, y])"
    by (rule is_under_append [of _ _ "[d, y]"]) (simp_all add: ab segs d(4) [symmetric] y(4) [symmetric])
qed

lemma subdirectory_under_root:
  assumes d: "47 \<notin> set d" "d \<noteq> []" "d \<noteq> [46]" "d \<noteq> [46, 46]"
  shows "is_under (join [baseDir, wid]) (join [join [baseDir, wid], d])"
  by (rule is_under_append [of _ _ "[d]"])
    (simp_all add: subdirectory_location [OF d] d(4) [symmetric])

lemma dot_in_subdirectory:
  assumes d: "47 \<notin> set d" "d \<noteq> []" "d \<noteq> [46]" "d \<noteq> [46, 46]"
    and y: "y = [] \<or> y = [46]"
  shows "same_location (join [join [join [baseDir, wid], d], y]) (join [join [baseDir, wid], d])"
  by (rule join_dot [OF join_nonempty y])

lemma dot_dot_in_subdirectory:
  assumes d: "47 \<notin> set d" "d \<noteq> []" "d \<noteq> [46]" "d \<noteq> [46, 46]"
  shows "same_location (join [join [join [baseDir, wid], d], [46, 46]]) (join [baseDir, wid])"
  using join_dot_dot [OF join_nonempty subdirectory_location(1) [OF d] d(4)]
    subdirectory_location(2) [OF d]
  by (simp add: same_location_def)

lemmas path_eval = join_def normalize_def normalizeString_def norm_step_def isAbsolute_def js_def
  Let_def new_WorkerSandbox_def replace_outside_def getSessionPath_def getTempPath_def
  getCachePath_def getStatePath_def getLogPath_def
  id_char_def name_char_def is_alnum_def

section \<open>Claims about the sandbox paths\<close>

text \<open>
  Claim C7, as amended.  Every path helper replaces each code unit of the supplied name that is
  outside \<open>[A-Za-z0-9._-]\<close> (for session ids: outside \<open>[A-Za-z0-9_-]\<close>) by an underscore,
  position by position, and joins the result (for sessions, state and logs with the extension
  appended) to its subdirectory, which lies directly under the sandbox root.  For every base
  directory, worker id and name, the session, state and log paths are the file of that name
  directly in their subdirectory.  So are the temp and cache paths for every name other than
  the empty name, \<open>.\<close> and \<open>..\<close>, in particular for every name that contains a
  \<open>/\<close>; for the empty name and \<open>.\<close> they are the subdirectory itself, and for
  \<open>..\<close> they are the sandbox root itself, which is not under the root.
\<close>

theorem path_sanitization:
  fixes wid baseDir name :: jsstring
  defines "sb \<equiv> new_WorkerSandbox wid baseDir"
  defines "safeId \<equiv> replace_outside id_char name" and "safeName \<equiv> replace_outside name_char name"
  shows "length safeId = length name \<and> length safeName = length name
    \<and> (\<forall>i < length name.
          safeId ! i = (if id_char (name ! i) then name ! i else 95)
        \<and> safeName ! i = (if name_char (name ! i) then name ! i else 95))
    \<and> getSessionPath sb name = join [p_sessions (paths sb), safeId @ js ''.json'']
    \<and> getTempPath sb name = join [p_temp (paths sb), safeName]
    \<and> getCachePath sb name = join [p_cache (paths sb), safeName]
    \<and> getStatePath sb name = join [p_state (paths sb), safeName @ js ''.json'']
    \<and> getLogPath sb name = join [p_logs (paths sb), safeName @ js ''.log'']
    \<and> path_segments (p_sessions (paths sb)) = path_segments (p_root (paths sb)) @ [js ''sessions'']
    \<and> path_segments (p_temp (paths sb)) = path_segments (p_root (paths sb)) @ [js ''temp'']
    \<and> path_segments (p_cache (paths sb)) = path_segments (p_root (paths sb)) @ [js ''cache'']
    \<and> path_segments (p_state (paths sb)) = path_segments (p_root (paths sb)) @ [js ''state'']
    \<and> path_segments (p_logs (paths sb)) = path_segments (p_root (paths sb)) @ [js ''logs'']
    \<and> path_segments (getSessionPath sb name)
          = path_segments (p_sessions (paths sb)) @ [safeId @ js ''.json'']
    \<and> is_under (p_sessions (paths sb)) (getSessionPath sb name)
    \<and> is_under (p_root (paths sb)) (getSessionPath sb name)
    \<and> path_segments (getStatePath sb name)
          = path_segments (p_state (paths sb)) @ [safeName @ js ''.json'']
    \<and> is_under (p_state (paths sb)) (getStatePath sb name)
    \<and> is_under (p_root (paths sb)) (getStatePath sb name)
    \<and> path_segments (getLogPath sb name)
          = path_segments (p_logs (paths sb)) @ [safeName @ js ''.log'']
    \<and> is_under (p_logs (paths sb)) (getLogPath sb name)
    \<and> is_under (p_root (paths sb)) (getLogPath sb name)
    \<and> (name \<noteq> [] \<and> name \<noteq> js ''.'' \<and> name \<noteq> js ''..'' \<longrightarrow>
          path_segments (getTempPath sb name) = path_segments (p_temp (paths sb)) @ [safeName]
        \<and> is_under (p_temp (paths sb)) (getTempPath sb name)
        \<and> is_under (p_root (paths sb)) (getTempPath sb name)
        \<and> path_segments (getCachePath sb name) = path_segments (p_cache (paths sb)) @ [safeName]
        \<and> is_under (p_cache (paths sb)) (getCachePath sb name)
        \<and> is_under (p_root (paths sb)) (getCachePath sb name))
    \<and> (47 \<in> set name \<longrightarrow> name \<noteq> [] \<and> name \<noteq> js ''.'' \<and> name \<noteq> js ''..'')
    \<and> (name = [] \<or> name = js ''.'' \<longrightarrow>
          same_location (getTempPath sb name) (p_temp (paths sb))
        \<and> is_under (p_root (paths sb)) (getTempPath sb name)
        \<and> same_location (getCachePath sb name) (p_cache (paths sb))
        \<and> is_under (p_root (paths sb)) (getCachePath sb name))
    \<and> (name = js ''..'' \<longrightarrow>
          same_location (getTempPath sb name) (p_root (paths sb))
        \<and> \<not> is_under (p_root (paths sb)) (getTempPath sb name)
        \<and> same_location (getCachePath sb name) (p_root (paths sb))
        \<and> \<not> is_under (p_root (paths sb)) (getCachePath sb name))"
proof -
  let ?root = "join [baseDir, wid]"
  have sf: "47 \<notin> set (safeId @ js ''.json'')" "47 \<notin> set (safeName @ js ''.json'')"
      "47 \<notin> set (safeName @ js ''.log'')" "47 \<notin> set safeName"
    using replace_outside_slash_free [of id_char name] replace_outside_slash_free [of name_char name]
    by (simp_all add: safeId_def safeName_def js_def id_char_47 name_char_47)
  have ne: "safeId @ js ''.json'' \<noteq> []" "safeId @ js ''.json'' \<noteq> [46]"
      "safeId @ js ''.json'' \<noteq> [46, 46]"
      "safeName @ js ''.json'' \<noteq> []" "safeName @ js ''.json'' \<noteq> [46]"
      "safeName @ js ''.json'' \<noteq> [46, 46]"
      "safeName @ js ''.log'' \<noteq> []" "safeName @ js ''.log'' \<noteq> [46]"
      "safeName @ js ''.log'' \<noteq> [46, 46]"
    by (simp_all add: js_def append_eq_Cons_conv)
  have dirs: "47 \<notin> set (js ''sessions'')" "js ''sessions'' \<noteq> []" "js ''sessions'' \<noteq> [46]"
      "js ''sessions'' \<noteq> [46, 46]"
      "47 \<notin> set (js ''temp'')" "js ''temp'' \<noteq> []" "js ''temp'' \<noteq> [46]" "js ''temp'' \<noteq> [46, 46]"
      "47 \<notin> set (js ''cache'')" "js ''cache'' \<noteq> []" "js ''cache'' \<noteq> [46]" "js ''cache'' \<noteq> [46, 46]"
      "47 \<notin> set (js ''state'')" "js ''state'' \<noteq> []" "js ''state'' \<noteq> [46]" "js ''state'' \<noteq> [46, 46]"
      "47 \<notin> set (js ''logs'')" "js ''logs'' \<noteq> []" "js ''logs'' \<noteq> [46]" "js ''logs'' \<noteq> [46, 46]"
    by (simp_all add: js_def)
  have helpers: "getSessionPath sb name = join [join [?root, js ''sessions''], safeId @ js ''.json'']"
      "getTempPath sb name = join [join [?root, js ''temp''], safeName]"
      "getCachePath sb name = join [join [?root, js ''cache''], safeName]"
      "getStatePath sb name = join [join [?root, js ''state''], safeName @ js ''.json'']"
      "getLogPath sb name = join [join [?root, js ''logs''], safeName @ js ''.log'']"
    and fields: "p_root (paths sb) = ?root" "p_sessions (paths sb) = join [?root, js ''sessions'']"
      "p_temp (paths sb) = join [?root, js ''temp'']" "p_cache (paths sb) = join [?root, js ''cache'']"
      "p_state (paths sb) = join [?root, js ''state'']" "p_logs (paths sb) = join [?root, js ''logs'']"
    by (simp_all add: sb_def safeId_def safeName_def new_WorkerSandbox_def Let_def
        getSessionPath_def getTempPath_def getCachePath_def getStatePath_def getLogPath_def)
  have chars: "length safeId = length name" "length safeName = length name"
      "\<forall>i < length name.
          safeId ! i = (if id_char (name ! i) then name ! i else 95)
        \<and> safeName ! i = (if name_char (name ! i) then name ! i else 95)"
    by (simp_all add: safeId_def safeName_def replace_outside_def)
  have subdirs:
      "path_segments (join [?root, js ''sessions'']) = path_segments ?root @ [js ''sessions'']"
      "path_segments (join [?root, js ''temp'']) = path_segments ?root @ [js ''temp'']"
      "path_segments (join [?root, js ''cache'']) = path_segments ?root @ [js ''cache'']"
      "path_segments (join [?root, js ''state'']) = path_segments ?root @ [js ''state'']"
      "path_segments (join [?root, js ''logs'']) = path_segments ?root @ [js ''logs'']"
    by (intro subdirectory_location(1) dirs)+
  note session = file_in_subdirectory [OF dirs(1-4) sf(1) ne(1-3), of baseDir wid]
  note state = file_in_subdirectory [OF dirs(13-16) sf(2) ne(4-6), of baseDir wid]
  note log = file_in_subdirectory [OF dirs(17-20) sf(3) ne(7-9), of baseDir wid]
  have plain: "safeName \<noteq> [] \<and> safeName \<noteq> [46] \<and> safeName \<noteq> [46, 46]"
    if "name \<noteq> [] \<and> name \<noteq> js ''.'' \<and> name \<noteq> js ''..''"
    using that by (simp add: safeName_def replace_outside_eq_dots js_def)
  have files: "path_segments (getTempPath sb name) = path_segments (p_temp (paths sb)) @ [safeName]
        \<and> is_under (p_temp (paths sb)) (getTempPath sb name)
        \<and> is_under (p_root (paths sb)) (getTempPath sb name)
        \<and> path_segments (getCachePath sb name) = path_segments (p_cache (paths sb)) @ [safeName]
        \<and> is_under (p_cache (paths sb)) (getCachePath sb name)
        \<and> is_under (p_root (paths sb)) (getCachePath sb name)"
    if "name \<noteq> [] \<and> name \<noteq> js ''.'' \<and> name \<noteq> js ''..''"
    using plain [OF that]
      file_in_subdirectory [OF dirs(5-8) sf(4), of baseDir wid]
      file_in_subdirectory [OF dirs(9-12) sf(4), of baseDir wid]
    by (simp add: helpers fields)
  have slash: "name \<noteq> [] \<and> name \<noteq> js ''.'' \<and> name \<noteq> js ''..''" if "47 \<in> set name"
    using that by (auto simp: js_def)
  have dot: "same_location (getTempPath sb name) (p_temp (paths sb))
        \<and> is_under (p_root (paths sb)) (getTempPath sb name)
        \<and> same_location (getCachePath sb name) (p_cache (paths sb))
        \<and> is_under (p_root (paths sb)) (getCachePath sb name)"
    if "name = [] \<or> name = js ''.''"
  proof -
    from that have y: "safeName = [] \<or> safeName = [46]"
      by (auto simp: safeName_def replace_outside_def js_def name_char_def)
    have t: "same_location (getTempPath sb name) (p_temp (paths sb))"
      and c: "same_location (getCachePath sb name) (p_cache (paths sb))"
      using dot_in_subdirectory [OF dirs(5-8) y, of baseDir wid]
        dot_in_subdirectory [OF dirs(9-12) y, of baseDir wid]
      by (simp_all add: helpers fields)
    have "is_under ?root (join [?root, js ''temp''])" "is_under ?root (join [?root, js ''cache''])"
      by (intro subdirectory_under_root dirs)+
    with t c show ?thesis
      by (simp add: fields is_under_def same_location_def)
  qed
  have dotdot: "same_location (getTempPath sb name) (p_root (paths sb))
        \<and> \<not> is_under (p_root (paths sb)) (getTempPath sb name)
        \<and> same_location (getCachePath sb name) (p_root (paths sb))
        \<and> \<not> is_under (p_root (paths sb)) (getCachePath sb name)"
    if "name = js ''..''"
  proof -
    from that have y: "safeName = [46, 46]"
      by (simp add: safeName_def replace_outside_def js_def name_char_def)
    have t: "same_location (getTempPath sb name) (p_root (paths sb))"
      and c: "same_location (getCachePath sb name) (p_root (paths sb))"
      using dot_dot_in_subdirectory [OF dirs(5-8), of baseDir wid]
        dot_dot_in_subdirectory [OF dirs(9-12), of baseDir wid]
      by (simp_all add: helpers fields y)
    then show ?thesis by (simp add: not_under_itself)
  qed
  show ?thesis
    using chars session state log files slash dot dotdot
    by (simp add: helpers fields subdirs)
qed

theorem path_sanitization_witness:
  "47 \<in> set (js ''../../../etc/passwd'')
   \<and> p_temp (paths (new_WorkerSandbox (js ''worker-0'') (js ''/tmp/moltbot-workers'')))
       = js ''/tmp/moltbot-workers/worker-0/temp''
   \<and> getTempPath (new_WorkerSandbox (js ''worker-0'') (js ''/tmp/moltbot-workers''))
       (js ''../../../etc/passwd'')
     = js ''/tmp/moltbot-workers/worker-0/temp/.._.._.._etc_passwd''
   \<and> is_under (js ''/tmp/moltbot-workers/worker-0/temp'')
       (js ''/tmp/moltbot-workers/worker-0/temp/.._.._.._etc_passwd'')
   \<and> is_under (js ''/tmp/moltbot-workers/worker-0'')
       (js ''/tmp/moltbot-workers/worker-0/temp/.._.._.._etc_passwd'')
   \<and> getSessionPath (new_WorkerSandbox (js ''worker-0'') (js ''/tmp/moltbot-workers''))
       (js ''../../../etc/passwd'')
     = js ''/tmp/moltbot-workers/worker-0/sessions/_________etc_passwd.json''
   \<and> is_under (js ''/tmp/moltbot-workers/worker-0/sessions'')
       (js ''/tmp/moltbot-workers/worker-0/sessions/_________etc_passwd.json'')
   \<and> same_location
       (getCachePath (new_WorkerSandbox (js ''worker-0'') (js ''/tmp/moltbot-workers'')) (js ''.''))
       (js ''/tmp/moltbot-workers/worker-0/cache'')"
proof -
  let ?sb = "new_WorkerSandbox (js ''worker-0'') (js ''/tmp/moltbot-workers'')"
  have slash: "47 \<in> set (js ''../../../etc/passwd'')" by (simp add: js_def)
  have dirs: "p_root (paths ?sb) = js ''/tmp/moltbot-workers/worker-0''"
      "p_temp (paths ?sb) = js ''/tmp/moltbot-workers/worker-0/temp''"
      "p_sessions (paths ?sb) = js ''/tmp/moltbot-workers/worker-0/sessions''"
      "p_cache (paths ?sb) = js ''/tmp/moltbot-workers/worker-0/cache''"
    by (simp_all add: path_eval)
  have temp: "getTempPath ?sb (js ''../../../etc/passwd'')
      = js ''/tmp/moltbot-workers/worker-0/temp/.._.._.._etc_passwd''"
    by (simp add: path_eval)
  have session: "getSessionPath ?sb (js ''../../../etc/passwd'')
      = js ''/tmp/moltbot-workers/worker-0/sessions/_________etc_passwd.json''"
    by (simp add: path_eval)
  from slash have plain: "js ''../../../etc/passwd'' \<noteq> [] \<and> js ''../../../etc/passwd'' \<noteq> js ''.''
      \<and> js ''../../../etc/passwd'' \<noteq> js ''..''"
    by (simp add: js_def)
  have plain_file: "is_under (p_temp (paths ?sb)) (getTempPath ?sb (js ''../../../etc/passwd''))
      \<and> is_under (p_root (paths ?sb)) (getTempPath ?sb (js ''../../../etc/passwd''))
      \<and> is_under (p_sessions (paths ?sb)) (getSessionPath ?sb (js ''../../../etc/passwd''))"
    using path_sanitization [where wid = "js ''worker-0''" and baseDir = "js ''/tmp/moltbot-workers''"
        and name = "js ''../../../etc/passwd''"] plain
    by blast
  have dot: "same_location (getCachePath ?sb (js ''.'')) (p_cache (paths ?sb))"
    using path_sanitization [where wid = "js ''worker-0''" and baseDir = "js ''/tmp/moltbot-workers''"
        and name = "js ''.''"]
    by blast
  from plain_file dot slash show ?thesis
    by (simp add: dirs temp session)
qed

text \<open>
  Claim C7 as stated fails for the name \<open>..\<close>, which the file-name sanitiser lets through:
  in the sandbox of \<open>worker-0\<close> under \<open>/tmp/moltbot-workers\<close>, \<open>getTempPath\<close> and
  \<open>getCachePath\<close> return the sandbox root, which is neither under \<open>temp/\<close> nor under
  the root.
\<close>

theorem temp_path_of_dot_dot_is_sandbox_root:
  "p_root (paths (new_WorkerSandbox (js ''worker-0'') (js ''/tmp/moltbot-workers'')))
     = js ''/tmp/moltbot-workers/worker-0''
   \<and> p_temp (paths (new_WorkerSandbox (js ''worker-0'') (js ''/tmp/moltbot-workers'')))
     = js ''/tmp/moltbot-workers/worker-0/temp''
   \<and> getTempPath (new_WorkerSandbox (js ''worker-0'') (js ''/tmp/moltbot-workers'')) (js ''..'')
     = js ''/tmp/moltbot-workers/worker-0''
   \<and> getCachePath (new_WorkerSandbox (js ''worker-0'') (js ''/tmp/moltbot-workers'')) (js ''..'')
     = js ''/tmp/moltbot-workers/worker-0''
   \<and> \<not> is_under (js ''/tmp/moltbot-workers/worker-0/temp'') (js ''/tmp/moltbot-workers/worker-0'')
   \<and> \<not> is_under (js ''/tmp/moltbot-workers/worker-0'') (js ''/tmp/moltbot-workers/worker-0'')"
  by (simp add: path_eval is_under_def path_segments_def)

text \<open>
  Claim C10: the sanitisation is not injective.  The distinct session ids \<open>a/b\<close> and
  \<open>a_b\<close> get the same path from \<open>getSessionPath\<close>, in every sandbox.
\<close>

theorem session_paths_collide:
  "js ''a/b'' \<noteq> js ''a_b'' \<and> getSessionPath sb (js ''a/b'') = getSessionPath sb (js ''a_b'')"
  by (simp add: getSessionPath_def replace_outside_def id_char_def is_alnum_def js_def)

section \<open>Properties of the instance keys\<close>

lemma key_file_locations:
  "path_segments (keyPath (new_WorkerSandbox wid baseDir))
     = path_segments (join [baseDir, wid]) @ [js ''keys'', js ''instance.key'']"
  "path_segments (idPath (new_WorkerSandbox wid baseDir))
     = path_segments (join [baseDir, wid]) @ [js ''keys'', js ''instance.id'']"
  "path_segments (metadataPath (new_WorkerSandbox wid baseDir))
     = path_segments (join [baseDir, wid]) @ [js ''sandbox.json'']"
proof -
  have plain: "47 \<notin> set (js ''keys'')" "js ''keys'' \<noteq> []" "js ''keys'' \<noteq> [46]"
      "js ''keys'' \<noteq> [46, 46]"
      "47 \<notin> set (js ''instance.key'')" "js ''instance.key'' \<noteq> []" "js ''instance.key'' \<noteq> [46]"
      "js ''instance.key'' \<noteq> [46, 46]"
      "47 \<notin> set (js ''instance.id'')" "js ''instance.id'' \<noteq> []" "js ''instance.id'' \<noteq> [46]"
      "js ''instance.id'' \<noteq> [46, 46]"
      "47 \<notin> set (js ''sandbox.json'')" "js ''sandbox.json'' \<noteq> []" "js ''sandbox.json'' \<noteq> [46]"
      "js ''sandbox.json'' \<noteq> [46, 46]"
    by (simp_all add: js_def)
  show "path_segments (keyPath (new_WorkerSandbox wid baseDir))
     = path_segments (join [baseDir, wid]) @ [js ''keys'', js ''instance.key'']"
    unfolding keyPath_def new_WorkerSandbox_def Let_def
    by (simp add: named_file_location plain)
  show "path_segments (idPath (new_WorkerSandbox wid baseDir))
     = path_segments (join [baseDir, wid]) @ [js ''keys'', js ''instance.id'']"
    unfolding idPath_def new_WorkerSandbox_def Let_def
    by (simp add: named_file_location plain)
  show "path_segments (metadataPath (new_WorkerSandbox wid baseDir))
     = path_segments (join [baseDir, wid]) @ [js ''sandbox.json'']"
    unfolding metadataPath_def new_WorkerSandbox_def Let_def METADATA_FILE_def
    using join_nonempty [of "[baseDir, wid]"] by (simp add: join_plain_segment plain)
qed

lemma key_files_distinct:
  "keyPath (new_WorkerSandbox wid baseDir) \<noteq> idPath (new_WorkerSandbox wid baseDir)"
  "metadataPath (new_WorkerSandbox wid baseDir) \<noteq> keyPath (new_WorkerSandbox wid baseDir)"
  "metadataPath (new_WorkerSandbox wid baseDir) \<noteq> idPath (new_WorkerSandbox wid baseDir)"
proof -
  let ?sb = "new_WorkerSandbox wid baseDir"
  show "keyPath ?sb \<noteq> idPath ?sb"
  proof
    assume "keyPath ?sb = idPath ?sb"
    then have "path_segments (keyPath ?sb) = path_segments (idPath ?sb)" by simp
    then show False by (simp add: key_file_locations js_def)
  qed
  show "metadataPath ?sb \<noteq> keyPath ?sb"
  proof
    assume "metadataPath ?sb = keyPath ?sb"
    then have "path_segments (metadataPath ?sb) = path_segments (keyPath ?sb)" by simp
    then show False by (simp add: key_file_locations js_def)
  qed
  show "metadataPath ?sb \<noteq> idPath ?sb"
  proof
    assume "metadataPath ?sb = idPath ?sb"
    then have "path_segments (metadataPath ?sb) = path_segments (idPath ?sb)" by simp
    then show False by (simp add: key_file_locations js_def)
  qed
qed

lemma unat_hex_digit: "n < 16 \<Longrightarrow> unat (hex_digit n) = (if n < 10 then 48 + n else 87 + n)"
proof -
  assume n: "n < 16"
  have "hex_digit n = (if n < 10 then of_nat (48 + n) else of_nat (87 + n))"
    by (simp add: hex_digit_def)
  moreover have "unat (of_nat (48 + n) :: 16 word) = 48 + n" "unat (of_nat (87 + n) :: 16 word) = 87 + n"
    using n by (simp_all only: unat_of_nat) simp_all
  ultimately show ?thesis by simp
qed

lemma hex_value_hex_digit: "n < 16 \<Longrightarrow> hex_value (hex_digit n) = Some n"
  by (simp add: hex_value_def word_le_nat_alt unat_hex_digit)

lemma hex_digit_not_space: "n < 16 \<Longrightarrow> \<not> is_white_space (hex_digit n)"
  by (simp add: is_white_space_def word_le_nat_alt word_unat_eq_iff unat_hex_digit)

lemma byte_nibbles: "unat b div 16 < 16" "unat b mod 16 < 16"
  "(of_nat (16 * (unat b div 16) + unat b mod 16) :: 8 word) = b" for b :: "8 word"
proof -
  have "unat b < 256" using unsigned_less [of b] by simp
  then show "unat b div 16 < 16" by simp
  show "unat b mod 16 < 16" by simp
  have "16 * (unat b div 16) + unat b mod 16 = unat b" by (rule mult_div_mod_eq)
  then show "(of_nat (16 * (unat b div 16) + unat b mod 16) :: 8 word) = b" by (simp only: of_nat_unat ucast_id)
qed

lemma fromHex_toHex_Cons:
  "fromHex (hex_digit (unat b div 16) # hex_digit (unat b mod 16) # rest) = b # fromHex rest"
  by (simp only: fromHex.simps hex_value_hex_digit byte_nibbles option.case)

lemma toHex_Cons: "toHex (b # bytes) = hex_digit (unat b div 16) # hex_digit (unat b mod 16) # toHex bytes"
  by (simp add: toHex_def)

lemma fromHex_toHex: "fromHex (toHex bytes) = bytes"
proof (induction bytes)
  case Nil
  show ?case by (simp add: toHex_def)
next
  case (Cons b bytes)
  then show ?case by (simp only: toHex_Cons fromHex_toHex_Cons)
qed

lemma trim_id: "s = [] \<or> (\<not> is_white_space (hd s) \<and> \<not> is_white_space (last s)) \<Longrightarrow> trim s = s"
proof (cases s rule: rev_cases)
  case Nil
  then show ?thesis by (simp add: trim_def)
next
  case (snoc xs x)
  assume "s = [] \<or> (\<not> is_white_space (hd s) \<and> \<not> is_white_space (last s))"
  with snoc have h: "\<not> is_white_space (hd s)" "\<not> is_white_space x" by simp_all
  from snoc have "s \<noteq> []" by simp
  then obtain c cs where s: "s = c # cs" by (cases s) auto
  with h(1) have front: "dropWhile is_white_space s = s" by simp
  from h(2) snoc have "dropWhile is_white_space (rev s) = rev s" by simp
  with front show ?thesis by (simp add: trim_def)
qed

lemma toHex_ends: "bytes \<noteq> [] \<Longrightarrow>
  toHex bytes \<noteq> [] \<and> \<not> is_white_space (hd (toHex bytes)) \<and> \<not> is_white_space (last (toHex bytes))"
proof (induction bytes)
  case Nil
  then show ?case by simp
next
  case (Cons b bs)
  show ?case
  proof (cases "bs = []")
    case True
    then show ?thesis by (simp add: toHex_def hex_digit_not_space byte_nibbles(1,2))
  next
    case False
    with Cons.IH show ?thesis by (simp add: toHex_Cons hex_digit_not_space byte_nibbles(1,2))
  qed
qed

lemma trim_toHex: "trim (toHex bytes) = toHex bytes"
  using toHex_ends [of bytes] by (cases "bytes = []") (simp_all add: trim_id toHex_def)

lemma length_randomBytes: "length (randomBytes src offset n) = n"
  by (simp add: randomBytes_def)

lemma key_paths_of_initialized:
  "keyPath (sb\<lparr>initialized := b\<rparr>) = keyPath sb" "idPath (sb\<lparr>initialized := b\<rparr>) = idPath sb"
  "metadataPath (sb\<lparr>initialized := b\<rparr>) = metadataPath sb"
  by (simp_all add: keyPath_def idPath_def metadataPath_def)

lemma getOrCreate_existing:
  "fs (keyPath sb) = Some k \<Longrightarrow> fs (idPath sb) = Some i \<Longrightarrow>
   getOrCreateInstanceKeys env sb fs
     = (\<lparr>privateKey = fromHex (trim k), instanceId = trim i,
         fingerprint = toHex (take 8 (fromHex (trim k)))\<rparr>, fs)"
  by (simp add: getOrCreateInstanceKeys_def Let_def)

lemma getOrCreate_missing:
  "fs (keyPath sb) = None \<or> fs (idPath sb) = None \<Longrightarrow>
   getOrCreateInstanceKeys env sb fs = generateInstanceKeys env sb fs"
  by (auto simp: getOrCreateInstanceKeys_def split: option.splits)

lemma initialize_fresh:
  assumes "\<not> initialized sb"
  shows "\<exists>content. initialize env sb fs
           = (sb\<lparr>initialized := True\<rparr>,
              (snd (getOrCreateInstanceKeys env sb fs))(metadataPath sb \<mapsto> content))"
  using assms by (auto simp: initialize_def Let_def split: prod.splits)

lemma initialize_key_files:
  assumes "initialize env (new_WorkerSandbox wid baseDir) fs = (sb1, fs1)"
  shows "sb1 = (new_WorkerSandbox wid baseDir)\<lparr>initialized := True\<rparr>"
    and "fs1 (keyPath (new_WorkerSandbox wid baseDir))
           = snd (getOrCreateInstanceKeys env (new_WorkerSandbox wid baseDir) fs)
               (keyPath (new_WorkerSandbox wid baseDir))"
    and "fs1 (idPath (new_WorkerSandbox wid baseDir))
           = snd (getOrCreateInstanceKeys env (new_WorkerSandbox wid baseDir) fs)
               (idPath (new_WorkerSandbox wid baseDir))"
proof -
  let ?sb = "new_WorkerSandbox wid baseDir"
  have "\<not> initialized ?sb" by (simp add: new_WorkerSandbox_def Let_def)
  from initialize_fresh [OF this, of env fs] assms obtain content
    where eq: "sb1 = ?sb\<lparr>initialized := True\<rparr>"
      "fs1 = (snd (getOrCreateInstanceKeys env ?sb fs))(metadataPath ?sb \<mapsto> content)"
    by auto
  show "sb1 = ?sb\<lparr>initialized := True\<rparr>" by fact
  show "fs1 (keyPath ?sb) = snd (getOrCreateInstanceKeys env ?sb fs) (keyPath ?sb)"
    using key_files_distinct(2) [of wid baseDir] by (simp add: eq(2))
  show "fs1 (idPath ?sb) = snd (getOrCreateInstanceKeys env ?sb fs) (idPath ?sb)"
    using key_files_distinct(3) [of wid baseDir] by (simp add: eq(2))
qed

lemma generate_files:
  "snd (generateInstanceKeys env (new_WorkerSandbox wid baseDir) fs)
       (keyPath (new_WorkerSandbox wid baseDir))
     = Some (toHex (randomBytes (random env) 0 32))"
  "snd (generateInstanceKeys env (new_WorkerSandbox wid baseDir) fs)
       (idPath (new_WorkerSandbox wid baseDir))
     = Some (wid @ js ''-'' @ numToString (now_instance env) @ js ''-''
               @ toHex (randomBytes (random env) 32 4))"
  using key_files_distinct(1) [of wid baseDir]
  by (simp_all add: generateInstanceKeys_def Let_def) (simp add: new_WorkerSandbox_def Let_def)


lemma toHex_inject: "toHex a = toHex b \<Longrightarrow> a = b"
  by (metis fromHex_toHex)


section \<open>Claims about the instance keys\<close>

text \<open>
  Claim C8, as amended.  An initialisation of a sandbox generates the 32-byte
  \<open>instance.key\<close> and the \<open>instance.id\<close> when either file is missing, as on the first
  initialisation; when both files exist it leaves them as they are.  A re-initialisation by a
  new object on the disk that an initialisation left changes neither file, and after both
  initialisations the keys read are the same: the key stored (the generated one, if it was
  generated), the stored id with surrounding white space trimmed, and as fingerprint the first
  8 bytes of the private key in hex.
\<close>

theorem instance_key_persistence:
  assumes init: "initialize env (new_WorkerSandbox wid baseDir) fs = (sb1, fs1)"
      and reinit: "initialize env' (new_WorkerSandbox wid baseDir) fs1 = (sb2, fs2)"
  shows "let sb = new_WorkerSandbox wid baseDir;
             generated = (fs (keyPath sb) = None \<or> fs (idPath sb) = None);
             key = randomBytes (random env) 0 32;
             iid = wid @ js ''-'' @ numToString (now_instance env) @ js ''-''
                     @ toHex (randomBytes (random env) 32 4)
         in (generated \<longrightarrow> fs1 (keyPath sb) = Some (toHex key) \<and> length key = 32
                          \<and> fs1 (idPath sb) = Some iid)
          \<and> (\<not> generated \<longrightarrow> fs1 (keyPath sb) = fs (keyPath sb) \<and> fs1 (idPath sb) = fs (idPath sb))
          \<and> fs2 (keyPath sb) = fs1 (keyPath sb) \<and> fs2 (idPath sb) = fs1 (idPath sb)
          \<and> (\<exists>keys. getInstanceKeys env1 sb1 fs1 = Inr (keys, fs1)
                 \<and> getInstanceKeys env2 sb2 fs2 = Inr (keys, fs2)
                 \<and> fingerprint keys = toHex (take 8 (privateKey keys))
                 \<and> (generated \<longrightarrow> privateKey keys = key \<and> instanceId keys = trim iid))"
proof -
  let ?sb = "new_WorkerSandbox wid baseDir"
  let ?generated = "fs (keyPath ?sb) = None \<or> fs (idPath ?sb) = None"
  let ?key = "randomBytes (random env) 0 32"
  let ?iid = "wid @ js ''-'' @ numToString (now_instance env) @ js ''-''
                @ toHex (randomBytes (random env) 32 4)"
  note i1 = initialize_key_files [OF init]
  have gen: "fs1 (keyPath ?sb) = Some (toHex ?key) \<and> fs1 (idPath ?sb) = Some ?iid" if ?generated
    using that i1(2,3) by (simp add: getOrCreate_missing generate_files)
  have kept: "fs1 (keyPath ?sb) = fs (keyPath ?sb) \<and> fs1 (idPath ?sb) = fs (idPath ?sb)"
    if "\<not> ?generated"
    using that i1(2,3) by (auto simp: getOrCreate_existing)
  from gen kept obtain k i where ki: "fs1 (keyPath ?sb) = Some k" "fs1 (idPath ?sb) = Some i"
    and gk: "?generated \<longrightarrow> k = toHex ?key \<and> i = ?iid"
    by (cases ?generated) auto
  note i2 = initialize_key_files [OF reinit]
  from i2(2,3) ki have same: "fs2 (keyPath ?sb) = fs1 (keyPath ?sb)" "fs2 (idPath ?sb) = fs1 (idPath ?sb)"
    by (simp_all add: getOrCreate_existing)
  let ?keys = "\<lparr>privateKey = fromHex (trim k), instanceId = trim i,
                 fingerprint = toHex (take 8 (fromHex (trim k)))\<rparr>"
  have r1: "getInstanceKeys env1 sb1 fs1 = Inr (?keys, fs1)"
    using ki by (simp add: getInstanceKeys_def i1(1) getOrCreate_existing key_paths_of_initialized)
  have r2: "getInstanceKeys env2 sb2 fs2 = Inr (?keys, fs2)"
    using ki same
    by (simp add: getInstanceKeys_def i2(1) getOrCreate_existing key_paths_of_initialized)
  have "?generated \<longrightarrow> privateKey ?keys = ?key \<and> instanceId ?keys = trim ?iid"
    using gk by (simp add: trim_toHex fromHex_toHex)
  with r1 r2 have "\<exists>keys. getInstanceKeys env1 sb1 fs1 = Inr (keys, fs1)
                 \<and> getInstanceKeys env2 sb2 fs2 = Inr (keys, fs2)
                 \<and> fingerprint keys = toHex (take 8 (privateKey keys))
                 \<and> (?generated \<longrightarrow> privateKey keys = ?key \<and> instanceId keys = trim ?iid)"
    by (intro exI [of _ ?keys]) simp
  with gen kept same show ?thesis
    by (simp only: Let_def length_randomBytes) blast
qed

theorem instance_key_persistence_witness:
  "snd first_boot (keyPath example_sandbox) = Some (toHex (randomBytes (random (example_env 16)) 0 32))
   \<and> snd second_boot (keyPath example_sandbox) = snd first_boot (keyPath example_sandbox)
   \<and> snd second_boot (idPath example_sandbox) = snd first_boot (idPath example_sandbox)
   \<and> (\<exists>keys. getInstanceKeys (example_env 7) (fst first_boot) (snd first_boot)
                  = Inr (keys, snd first_boot)
          \<and> getInstanceKeys (example_env 9) (fst second_boot) (snd second_boot)
                  = Inr (keys, snd second_boot)
          \<and> privateKey keys = randomBytes (random (example_env 16)) 0 32
          \<and> fingerprint keys = js ''1011121314151617'')"
proof -
  have a: "initialize (example_env 16) (new_WorkerSandbox (js ''worker-0'') (js ''/tmp/moltbot-workers''))
             Map.empty = (fst first_boot, snd first_boot)"
    and b: "initialize (example_env 100) (new_WorkerSandbox (js ''worker-0'') (js ''/tmp/moltbot-workers''))
             (snd first_boot) = (fst second_boot, snd second_boot)"
    by (simp_all add: first_boot_def second_boot_def example_sandbox_def)
  have fp: "toHex (take 8 (randomBytes (random (example_env 16)) 0 32)) = js ''1011121314151617''"
    by (simp add: randomBytes_def example_env_def toHex_def hex_digit_def js_def upt_rec take_map)
  from instance_key_persistence [OF a b, of "example_env 7" "example_env 9"] fp
  show ?thesis
    by (simp add: Let_def example_sandbox_def) metis
qed

text \<open>
  Claim C8 as stated fails when \<open>instance.key\<close> exists but \<open>instance.id\<close> does not: both
  files are read inside one \<open>try\<close>, so the missing id makes the \<open>catch\<close> generate a
  new key, which replaces the one on disk.
\<close>

theorem orphan_key_is_regenerated:
  "orphan_key_fs (keyPath example_sandbox) = Some (toHex (replicate 32 0xAA))
   \<and> orphan_key_fs (idPath example_sandbox) = None
   \<and> privateKey (fst (getOrCreateInstanceKeys (example_env 16) example_sandbox orphan_key_fs))
       = randomBytes (random (example_env 16)) 0 32
   \<and> privateKey (fst (getOrCreateInstanceKeys (example_env 16) example_sandbox orphan_key_fs))
       \<noteq> replicate 32 0xAA
   \<and> snd (initialize (example_env 16) example_sandbox orphan_key_fs) (keyPath example_sandbox)
       \<noteq> orphan_key_fs (keyPath example_sandbox)"
proof -
  have noid: "orphan_key_fs (idPath example_sandbox) = None"
    using key_files_distinct(1) [of "js ''worker-0''" "js ''/tmp/moltbot-workers''"]
    by (simp add: orphan_key_fs_def example_sandbox_def)
  then have gen: "getOrCreateInstanceKeys (example_env 16) example_sandbox orphan_key_fs
      = generateInstanceKeys (example_env 16) example_sandbox orphan_key_fs"
    by (simp add: getOrCreate_missing)
  have h1: "hd (randomBytes (random (example_env 16)) 0 32) = 16"
    by (simp add: randomBytes_def example_env_def upt_rec)
  have h2: "hd (replicate 32 (0xAA :: 8 word)) = 0xAA" by simp
  have ne: "randomBytes (random (example_env 16)) 0 32 \<noteq> replicate 32 0xAA"
  proof
    assume "randomBytes (random (example_env 16)) 0 32 = replicate 32 0xAA"
    then have "hd (randomBytes (random (example_env 16)) 0 32) = hd (replicate 32 (0xAA :: 8 word))"
      by simp
    with h1 h2 show False by simp
  qed
  have key: "privateKey (fst (getOrCreateInstanceKeys (example_env 16) example_sandbox orphan_key_fs))
       = randomBytes (random (example_env 16)) 0 32"
    by (simp add: gen generateInstanceKeys_def Let_def)
  have old: "orphan_key_fs (keyPath example_sandbox) = Some (toHex (replicate 32 0xAA))"
    by (simp add: orphan_key_fs_def)
  have "snd (initialize (example_env 16) example_sandbox orphan_key_fs) (keyPath example_sandbox)
      = Some (toHex (randomBytes (random (example_env 16)) 0 32))"
    using initialize_key_files(2) [of "example_env 16" "js ''worker-0''" "js ''/tmp/moltbot-workers''"
        orphan_key_fs "fst (initialize (example_env 16) example_sandbox orphan_key_fs)"
        "snd (initialize (example_env 16) example_sandbox orphan_key_fs)"]
      gen generate_files(1) [of "example_env 16" "js ''worker-0''" "js ''/tmp/moltbot-workers''" orphan_key_fs]
    by (simp add: example_sandbox_def)
  with old ne have "snd (initialize (example_env 16) example_sandbox orphan_key_fs)
      (keyPath example_sandbox) \<noteq> orphan_key_fs (keyPath example_sandbox)"
    by (auto dest: toHex_inject)
  with old noid key ne show ?thesis by simp
qed

end
